theory Spec2Isabelle
  imports Main "HOL-Library.Sublist" "HOL-Library.Char_ord" "HOL-Library.List_Lexorder"
begin

section \<open>Python values\<close>

text \<open>
  The news items that travel through \<^verbatim>\<open>app.py\<close> are dictionaries whose values are either
  \<^verbatim>\<open>None\<close> or a \<^verbatim>\<open>str\<close>.  A \<^verbatim>\<open>str\<close> is modelled by a HOL string whose characters are
  read as the code points U+0000 .. U+00FF.
\<close>

datatype pyval = PyNone | PyStr string

datatype error = TypeError | ValueError | OverflowError | RequestError

text \<open>Truth value of an object in a condition: \<^verbatim>\<open>None\<close> and \<^verbatim>\<open>""\<close> are false.\<close>

fun truthy :: "pyval \<Rightarrow> bool" where
  "truthy PyNone = False"
| "truthy (PyStr s) = (s \<noteq> [])"

text \<open>\<^verbatim>\<open>x + y\<close> on these values: only \<^verbatim>\<open>str + str\<close> is defined.\<close>

fun py_add :: "pyval \<Rightarrow> pyval \<Rightarrow> error + pyval" where
  "py_add (PyStr a) (PyStr b) = Inr (PyStr (a @ b))"
| "py_add _ _ = Inl TypeError"

text \<open>
  \<^verbatim>\<open>str.lower()\<close> on U+0000 .. U+00FF: the upper-case letters are A-Z, U+00C0 .. U+00D6 and
  U+00D8 .. U+00DE, and the lower-case partner is 32 code points further, which is the
  same as setting bit 5 (clear in all three ranges).
\<close>

definition is_upper :: "char \<Rightarrow> bool" where
  "is_upper c =
     (let n = (of_char c :: nat)
      in (65 \<le> n \<and> n \<le> 90) \<or> (192 \<le> n \<and> n \<le> 214) \<or> (216 \<le> n \<and> n \<le> 222))"

definition py_lower_char :: "char \<Rightarrow> char" where
  "py_lower_char c =
     (if is_upper c
      then (case c of Char b0 b1 b2 b3 b4 b5 b6 b7 \<Rightarrow> Char b0 b1 b2 b3 b4 True b6 b7)
      else c)"

definition py_lower :: "string \<Rightarrow> string" where
  "py_lower s = map py_lower_char s"

text \<open>\<^verbatim>\<open>kw in t\<close> for two strings: \<^verbatim>\<open>kw\<close> occurs in \<^verbatim>\<open>t\<close> as a contiguous substring.\<close>

fun str_contains :: "string \<Rightarrow> string \<Rightarrow> bool" where
  "str_contains kw [] = (kw = [])"
| "str_contains kw (c # t) = (prefix kw (c # t) \<or> str_contains kw t)"

section \<open>Categorization helper\<close>

text \<open>
  \<^verbatim>\<open>CATEGORY_KEYWORDS\<close> is a dict literal; iterating \<^verbatim>\<open>.items()\<close> visits the entries in the
  order in which they are written, so the table is an association list.
\<close>

definition CATEGORY_KEYWORDS :: "(string \<times> string list) list" where
  "CATEGORY_KEYWORDS =
    [(''Pemerintahan'', [''bupati'', ''dprd'', ''pemkab'', ''peraturan'', ''perda'', ''kpu'',
                         ''pilkada'', ''pemerintah'', ''kabupaten'', ''sekda'']),
     (''Ekonomi'', [''ekonomi'', ''investasi'', ''pasar'', ''umkm'', ''industri'', ''pertanian'',
                    ''ekspor'', ''impor'']),
     (''Olahraga'', [''olahraga'', ''sepakbola'', ''voli'', ''turnamen'', ''liga'', ''futsal'',
                     ''piala'', ''pertandingan'']),
     (''Hukum'', [''hukum'', ''kriminal'', ''polisi'', ''pengadilan'', ''kasus'', ''kejaksaan'',
                  ''penangkapan'', ''sidang''])]"

text \<open>The inner loop \<^verbatim>\<open>for kw in kws: if kw in t: return cat\<close>: does it return?\<close>

fun scan_keywords :: "string list \<Rightarrow> string \<Rightarrow> bool" where
  "scan_keywords [] t = False"
| "scan_keywords (kw # kws) t = (if str_contains kw t then True else scan_keywords kws t)"

text \<open>The outer loop over the table, and the \<^verbatim>\<open>return "Lainnya"\<close> after it.\<close>

fun scan_categories :: "(string \<times> string list) list \<Rightarrow> string \<Rightarrow> string" where
  "scan_categories [] t = ''Lainnya''"
| "scan_categories ((cat, kws) # rest) t =
     (if scan_keywords kws t then cat else scan_categories rest t)"

definition categorize :: "pyval \<Rightarrow> string" where
  "categorize tx =
     (if \<not> truthy tx then ''Lainnya''
      else (case tx of
              PyStr s \<Rightarrow> scan_categories CATEGORY_KEYWORDS (py_lower s)
            | PyNone \<Rightarrow> ''Lainnya''))"

text \<open>The fixed set of category names: the four keys of the table and the catch-all.\<close>

definition CATEGORIES :: "string set" where
  "CATEGORIES = {''Pemerintahan'', ''Ekonomi'', ''Olahraga'', ''Hukum'', ''Lainnya''}"

section \<open>Items and the article table\<close>

text \<open>
  A scraped item is a \<^verbatim>\<open>dict\<close> from key names to values.  \<^verbatim>\<open>a.get(k)\<close> answers \<^verbatim>\<open>None\<close> for
  a missing key, \<^verbatim>\<open>a.get(k, d)\<close> answers \<^verbatim>\<open>d\<close> for a missing key and the stored value (which
  may be \<^verbatim>\<open>None\<close>) for a present one.
\<close>

type_synonym item = "string \<rightharpoonup> pyval"

definition dict_get :: "item \<Rightarrow> string \<Rightarrow> pyval" where
  "dict_get a k = (case a k of None \<Rightarrow> PyNone | Some v \<Rightarrow> v)"

definition dict_get_default :: "item \<Rightarrow> string \<Rightarrow> pyval \<Rightarrow> pyval" where
  "dict_get_default a k d = (case a k of None \<Rightarrow> d | Some v \<Rightarrow> v)"

text \<open>
  One row of the table \<^verbatim>\<open>articles\<close> as \<^verbatim>\<open>init_db\<close> leaves it: the five \<^verbatim>\<open>NOT NULL\<close> text
  columns of the \<^verbatim>\<open>CREATE TABLE\<close> and the \<^verbatim>\<open>category\<close> column added by \<^verbatim>\<open>ALTER TABLE\<close>.  The
  surrogate key \<^verbatim>\<open>id\<close> is left out: no statement of \<^verbatim>\<open>app.py\<close> reads or writes it.  The table
  is the list of its rows in the order of insertion.
\<close>

record article =
  title :: string
  url :: string
  source :: string
  published_at :: string
  created_at :: string
  category :: string

text \<open>
  \<^verbatim>\<open>INSERT OR IGNORE INTO articles (title, url, source, published_at, created_at, category)\<close>
  with one tuple of bound values.  A \<^verbatim>\<open>None\<close> bound to a \<^verbatim>\<open>NOT NULL\<close> column and a \<^verbatim>\<open>url\<close>
  that a stored row already has (\<^verbatim>\<open>UNIQUE\<close>) are constraint violations; under \<^verbatim>\<open>OR IGNORE\<close>
  the row is skipped and no error is returned.  The second component is \<^verbatim>\<open>cur.rowcount\<close>.
\<close>

fun insert_or_ignore ::
  "pyval \<Rightarrow> pyval \<Rightarrow> pyval \<Rightarrow> pyval \<Rightarrow> pyval \<Rightarrow> string \<Rightarrow> article list \<Rightarrow> article list \<times> nat"
where
  "insert_or_ignore (PyStr t) (PyStr u) (PyStr s) (PyStr p) (PyStr c) cat rows =
     (if u \<in> url ` set rows then (rows, 0)
      else (rows @ [\<lparr>title = t, url = u, source = s, published_at = p, created_at = c,
                     category = cat\<rparr>], 1))"
| "insert_or_ignore _ _ _ _ _ cat rows = (rows, 0)"

section \<open>Persistence: the live \<^verbatim>\<open>save_articles\<close>\<close>

text \<open>
  \<^verbatim>\<open>app.py\<close> defines \<^verbatim>\<open>save_articles\<close> twice; the second definition (line 381) replaces the
  first and is the one \<^verbatim>\<open>crawl_all\<close> calls.  It is the one modelled here.

  The argument of \<^verbatim>\<open>categorize\<close> is the conditional expression
  \<^verbatim>\<open>title + " " + a.get("summary","") if a.get("summary") else title\<close>; the concatenation
  raises \<^verbatim>\<open>TypeError\<close> when \<^verbatim>\<open>title\<close> is \<^verbatim>\<open>None\<close>, and it stands before the \<^verbatim>\<open>try\<close>.
\<close>

definition categorize_arg :: "item \<Rightarrow> error + pyval" where
  "categorize_arg a =
     (if truthy (dict_get a ''summary'')
      then (case py_add (dict_get a ''title'') (PyStr '' '') of
              Inl e \<Rightarrow> Inl e
            | Inr ts \<Rightarrow> py_add ts (dict_get_default a ''summary'' (PyStr [])))
      else Inr (dict_get a ''title''))"

text \<open>
  The loop body for one item.  \<^verbatim>\<open>datetime.utcnow().isoformat()\<close> is evaluated twice per item:
  as the (eagerly evaluated) default of \<^verbatim>\<open>a.get("published_at", ...)\<close> and as \<^verbatim>\<open>created_at\<close>.
  \<^verbatim>\<open>clock\<close> gives the readings of one call of \<^verbatim>\<open>save_articles\<close> in the order in which they
  are taken; \<^verbatim>\<open>k\<close> counts the readings taken so far.  The \<^verbatim>\<open>except Exception: continue\<close> around
  \<^verbatim>\<open>cur.execute\<close> has no branch here: with \<^verbatim>\<open>OR IGNORE\<close> the statement does not fail on these
  values.
\<close>

definition save_one ::
  "(nat \<Rightarrow> string) \<Rightarrow> nat \<Rightarrow> item \<Rightarrow> article list \<Rightarrow> error + (article list \<times> nat)"
where
  "save_one clock k a rows =
     (let t = dict_get a ''title'';
          u = dict_get a ''url'';
          s = dict_get_default a ''source'' (PyStr []);
          pub = dict_get_default a ''published_at'' (PyStr (clock k))
      in case categorize_arg a of
           Inl e \<Rightarrow> Inl e
         | Inr tx \<Rightarrow>
             Inr (insert_or_ignore t u s pub (PyStr (clock (k + 1))) (categorize tx) rows))"

fun save_loop ::
  "(nat \<Rightarrow> string) \<Rightarrow> nat \<Rightarrow> item list \<Rightarrow> article list \<Rightarrow> nat \<Rightarrow> error + (article list \<times> nat)"
where
  "save_loop clock k [] rows tot = Inr (rows, tot)"
| "save_loop clock k (a # items) rows tot =
     (case save_one clock k a rows of
        Inl e \<Rightarrow> Inl e
      | Inr (rows', rowcount) \<Rightarrow>
          save_loop clock (k + 2) items rows' (if rowcount \<noteq> 0 then tot + 1 else tot))"

text \<open>
  The whole call, from a table \<^verbatim>\<open>rows\<close>: the value returned or the exception raised, and
  the table afterwards.  \<^verbatim>\<open>conn.commit()\<close> is reached only when the loop ends; when the loop
  raises, the connection is dropped with its transaction open and the rows inserted by
  this call are not committed.  The dropped connection is taken to be closed, and its lock
  on the database file released, before a later call opens a connection of its own; for as
  long as it stayed open, the inserts of a later call would fail and be swallowed by the
  \<^verbatim>\<open>except Exception: continue\<close> around \<^verbatim>\<open>cur.execute\<close>.
\<close>

definition save_articles ::
  "(nat \<Rightarrow> string) \<Rightarrow> item list \<Rightarrow> article list \<Rightarrow> (error + nat) \<times> article list"
where
  "save_articles clock items rows =
     (if items = [] then (Inr 0, rows)
      else (case save_loop clock 0 items rows 0 of
              Inl e \<Rightarrow> (Inl e, rows)
            | Inr (rows', tot) \<Rightarrow> (Inr tot, rows')))"

section \<open>The crawl pass\<close>

text \<open>
  \<^verbatim>\<open>crawl_all\<close> calls every scraper of \<^verbatim>\<open>SCRAPERS\<close> in turn.  A scraper reads the network and the
  clock and never the table, so a pass is determined by the outcomes of the scraper calls,
  in order: \<^verbatim>\<open>Inl\<close> for a call that raises, \<^verbatim>\<open>Inr items\<close> for one that returns.  \<^verbatim>\<open>clock j\<close>
  gives the clock readings taken while the items of scraper \<^verbatim>\<open>j\<close> are saved.

  The state of a pass is the running total, the table, and the list of messages written
  to a log or to the console so far.  Neither \<^verbatim>\<open>crawl_all\<close> nor a function it calls has a
  statement that writes a message, so no step extends that list.
\<close>

record pass_state =
  total_count :: nat
  table :: "article list"
  logged :: "string list"

fun crawl_loop ::
  "(nat \<Rightarrow> nat \<Rightarrow> string) \<Rightarrow> nat \<Rightarrow> (error + item list) list \<Rightarrow> pass_state \<Rightarrow> pass_state"
where
  "crawl_loop clock j [] st = st"
| "crawl_loop clock j (Inl e # ss) st = crawl_loop clock (j + 1) ss st"
| "crawl_loop clock j (Inr items # ss) st =
     (case save_articles (clock j) items (table st) of
        (Inl e, rows') \<Rightarrow> crawl_loop clock (j + 1) ss (st\<lparr>table := rows'\<rparr>)
      | (Inr n, rows') \<Rightarrow> crawl_loop clock (j + 1) ss (st\<lparr>total_count := total_count st + n, table := rows'\<rparr>))"

definition crawl_all ::
  "(nat \<Rightarrow> nat \<Rightarrow> string) \<Rightarrow> (error + item list) list \<Rightarrow> article list \<Rightarrow> string list \<Rightarrow> pass_state"
where
  "crawl_all clock outcomes rows log =
     crawl_loop clock 0 outcomes \<lparr>total_count = 0, table = rows, logged = log\<rparr>"

text \<open>
  What each scraper adds to the total of a pass, in the words of the specification: the
  number of rows inserted from its items, and nothing for a scraper whose call (or whose
  save) raises.  The table is threaded through as in \<^verbatim>\<open>crawl_all\<close>.
\<close>

fun contributions ::
  "(nat \<Rightarrow> nat \<Rightarrow> string) \<Rightarrow> nat \<Rightarrow> (error + item list) list \<Rightarrow> article list \<Rightarrow> nat list"
where
  "contributions clock j [] rows = []"
| "contributions clock j (Inl e # ss) rows = 0 # contributions clock (j + 1) ss rows"
| "contributions clock j (Inr items # ss) rows =
     (case save_articles (clock j) items rows of
        (Inl e, rows') \<Rightarrow> 0 # contributions clock (j + 1) ss rows'
      | (Inr n, rows') \<Rightarrow> n # contributions clock (j + 1) ss rows')"

section \<open>Date normalization\<close>

text \<open>
  \<^verbatim>\<open>normalize_datetime\<close> tries five formats with \<^verbatim>\<open>datetime.strptime\<close>, in this order.
\<close>

definition candidates :: "string list" where
  "candidates =
     [''%Y-%m-%dT%H:%M:%S%z'', ''%Y-%m-%dT%H:%M:%S'', ''%d %B %Y'', ''%d/%m/%Y'', ''%Y-%m-%d'']"

text \<open>
  \<^verbatim>\<open>datetime.strptime\<close> belongs to the Python library (its answer depends on the interpreter
  version and, for \<^verbatim>\<open>%B\<close>, on the locale), so the model takes it as the parameter
  \<^verbatim>\<open>strptime\<close>: the parsed value, or the exception raised, for a string and a format.  The
  values it returns are not inspected and have the type \<^verbatim>\<open>'dt\<close>.  A first argument that is
  not a \<^verbatim>\<open>str\<close> makes the call raise \<^verbatim>\<open>TypeError\<close> before anything is parsed.
\<close>

definition strptime_call ::
  "(string \<Rightarrow> string \<Rightarrow> error + 'dt) \<Rightarrow> pyval \<Rightarrow> string \<Rightarrow> error + 'dt"
where
  "strptime_call strptime dt_str fmt =
     (case dt_str of PyNone \<Rightarrow> Inl TypeError | PyStr s \<Rightarrow> strptime s fmt)"

text \<open>
  \<^verbatim>\<open>except Exception\<close> catches an exception whose class derives from \<^verbatim>\<open>Exception\<close>; all four
  kinds of \<^verbatim>\<open>error\<close> do.
\<close>

fun is_Exception :: "error \<Rightarrow> bool" where
  "is_Exception TypeError = True"
| "is_Exception ValueError = True"
| "is_Exception OverflowError = True"
| "is_Exception RequestError = True"

text \<open>
  The loop \<^verbatim>\<open>for fmt in candidates: try: return strptime(...) except Exception: continue\<close>
  and the \<^verbatim>\<open>return datetime.utcnow()\<close> after it; \<^verbatim>\<open>utcnow\<close> is the reading of the clock taken
  there.
\<close>

fun try_formats ::
  "(string \<Rightarrow> string \<Rightarrow> error + 'dt) \<Rightarrow> 'dt \<Rightarrow> pyval \<Rightarrow> string list \<Rightarrow> error + 'dt"
where
  "try_formats strptime utcnow dt_str [] = Inr utcnow"
| "try_formats strptime utcnow dt_str (fmt # fmts) =
     (case strptime_call strptime dt_str fmt of
        Inr d \<Rightarrow> Inr d
      | Inl e \<Rightarrow> if is_Exception e then try_formats strptime utcnow dt_str fmts else Inl e)"

definition normalize_datetime ::
  "(string \<Rightarrow> string \<Rightarrow> error + 'dt) \<Rightarrow> 'dt \<Rightarrow> pyval \<Rightarrow> error + 'dt"
where
  "normalize_datetime strptime utcnow dt_str = try_formats strptime utcnow dt_str candidates"

section \<open>Integers and calendar dates of the Python library\<close>

text \<open>
  \<^verbatim>\<open>int(s)\<close> for a string, base ten: white space around the number is dropped, one sign may
  lead, and the digits may be separated by single underscores.  Anything else raises
  \<^verbatim>\<open>ValueError\<close>.  The white space that \<^verbatim>\<open>int\<close> drops is U+0009 .. U+000D and the blank, and
  of the code points from U+0080 on the two spaces U+0085 and U+00A0; the separators
  U+001C .. U+001F are not dropped.
\<close>

definition is_space :: "char \<Rightarrow> bool" where
  "is_space c =
     (let n = (of_char c :: nat)
      in (9 \<le> n \<and> n \<le> 13) \<or> n = 32 \<or> n = 133 \<or> n = 160)"

definition is_digit :: "char \<Rightarrow> bool" where
  "is_digit c = (let n = (of_char c :: nat) in 48 \<le> n \<and> n \<le> 57)"

definition digit_val :: "char \<Rightarrow> nat" where
  "digit_val c = of_char c - 48"

definition strip :: "string \<Rightarrow> string" where
  "strip s = rev (dropWhile is_space (rev (dropWhile is_space s)))"

fun parse_digits :: "bool \<Rightarrow> nat \<Rightarrow> string \<Rightarrow> nat option" where
  "parse_digits prev acc [] = (if prev then Some acc else None)"
| "parse_digits prev acc (c # cs) =
     (if is_digit c then parse_digits True (10 * acc + digit_val c) cs
      else if c = CHR ''_'' \<and> prev
      then (case cs of
              [] \<Rightarrow> None
            | d # _ \<Rightarrow> if is_digit d then parse_digits False acc cs else None)
      else None)"

definition py_int :: "string \<Rightarrow> error + int" where
  "py_int s =
     (case strip s of
        [] \<Rightarrow> Inl ValueError
      | c # cs \<Rightarrow>
          if c = CHR ''-''
          then (case parse_digits False 0 cs of
                  None \<Rightarrow> Inl ValueError | Some n \<Rightarrow> Inr (- int n))
          else if c = CHR ''+''
          then (case parse_digits False 0 cs of
                  None \<Rightarrow> Inl ValueError | Some n \<Rightarrow> Inr (int n))
          else (case parse_digits False 0 (c # cs) of
                  None \<Rightarrow> Inl ValueError | Some n \<Rightarrow> Inr (int n)))"

text \<open>The proleptic Gregorian calendar of \<^verbatim>\<open>datetime\<close>: years 1 to 9999.\<close>

definition is_leap :: "nat \<Rightarrow> bool" where
  "is_leap y = (y mod 4 = 0 \<and> (y mod 100 \<noteq> 0 \<or> y mod 400 = 0))"

definition days_in_month :: "nat \<Rightarrow> nat \<Rightarrow> nat" where
  "days_in_month y m =
     (if m = 2 then (if is_leap y then 29 else 28)
      else if m = 4 \<or> m = 6 \<or> m = 9 \<or> m = 11 then 30 else 31)"

definition valid_date :: "nat \<times> nat \<times> nat \<Rightarrow> bool" where
  "valid_date ymd =
     (case ymd of (y, m, d) \<Rightarrow>
        1 \<le> y \<and> y \<le> 9999 \<and> 1 \<le> m \<and> m \<le> 12 \<and> 1 \<le> d \<and> d \<le> days_in_month y m)"

text \<open>Decimal digits and zero padding, as in \<^verbatim>\<open>"%04d-%02d-%02d"\<close>.\<close>

definition digit_char :: "nat \<Rightarrow> char" where
  "digit_char n = ''0123456789'' ! (n mod 10)"

definition pad2 :: "nat \<Rightarrow> string" where
  "pad2 n = [digit_char (n div 10), digit_char n]"

definition pad4 :: "nat \<Rightarrow> string" where
  "pad4 n = [digit_char (n div 1000), digit_char (n div 100), digit_char (n div 10), digit_char n]"

text \<open>\<^verbatim>\<open>date.isoformat()\<close> of a valid date.\<close>

definition date_iso :: "nat \<times> nat \<times> nat \<Rightarrow> string" where
  "date_iso ymd = (case ymd of (y, m, d) \<Rightarrow> pad4 y @ ''-'' @ pad2 m @ ''-'' @ pad2 d)"

text \<open>
  \<^verbatim>\<open>datetime(y, mon, d).isoformat()\<close>: the constructor raises \<^verbatim>\<open>OverflowError\<close> for an
  argument that does not fit a 32-bit signed integer and \<^verbatim>\<open>ValueError\<close> for a date that does
  not exist; the time of day is midnight.
\<close>

definition fits_int32 :: "int \<Rightarrow> bool" where
  "fits_int32 n = (- (2 ^ 31) \<le> n \<and> n < 2 ^ 31)"

definition datetime_isoformat :: "int \<Rightarrow> int \<Rightarrow> int \<Rightarrow> error + string" where
  "datetime_isoformat y mon d =
     (if \<not> (fits_int32 y \<and> fits_int32 mon \<and> fits_int32 d) then Inl OverflowError
      else if 0 \<le> y \<and> 0 \<le> mon \<and> 0 \<le> d \<and> valid_date (nat y, nat mon, nat d)
      then Inr (date_iso (nat y, nat mon, nat d) @ ''T00:00:00'')
      else Inl ValueError)"

section \<open>The long-form date helper of \<^verbatim>\<open>scraper_jombangkab\<close>\<close>

text \<open>
  The regular expressions that \<^verbatim>\<open>parse_id_date\<close> needs: a literal character, a literal
  string, sequence, alternative, a capturing group, and the greedy repetition \<^verbatim>\<open>c{lo,hi}\<close>
  of one literal character (\<^verbatim>\<open>c+\<close> is \<^verbatim>\<open>c{1,}\<close>).
\<close>

datatype rx =
  Chr char
| Str string
| Seq rx rx
| Alt rx rx
| Grp rx
| Rep char nat "nat option"

text \<open>
  A backtracking matcher: all ways of matching a prefix of the input, in the order in
  which the \<^verbatim>\<open>re\<close> module tries them (first alternative first, longest repetition first).
  A state is the input that is left and the texts captured so far, in group order.
\<close>

fun rmatch :: "rx \<Rightarrow> string \<times> string list \<Rightarrow> (string \<times> string list) list" where
  "rmatch (Chr c) (s, gs) =
     (case s of [] \<Rightarrow> [] | x # s' \<Rightarrow> if x = c then [(s', gs)] else [])"
| "rmatch (Str w) (s, gs) = (if prefix w s then [(drop (length w) s, gs)] else [])"
| "rmatch (Seq a b) st = concat (map (rmatch b) (rmatch a st))"
| "rmatch (Alt a b) st = rmatch a st @ rmatch b st"
| "rmatch (Grp a) (s, gs) =
     map (\<lambda>(s', gs'). (s', gs' @ [take (length s - length s') s])) (rmatch a (s, gs))"
| "rmatch (Rep c lo hi) (s, gs) =
     (let n = length (takeWhile (\<lambda>x. x = c) s);
          m = (case hi of None \<Rightarrow> n | Some h \<Rightarrow> min n h)
      in map (\<lambda>k. (drop k s, gs)) (rev [lo ..< Suc m]))"

text \<open>\<^verbatim>\<open>re.search\<close>: the first match at the leftmost position that has one; its groups.\<close>

fun re_search :: "rx \<Rightarrow> string \<Rightarrow> string list option" where
  "re_search r [] = (case rmatch r ([], []) of [] \<Rightarrow> None | (s', gs) # _ \<Rightarrow> Some gs)"
| "re_search r (c # s) =
     (case rmatch r (c # s, []) of [] \<Rightarrow> re_search r s | (s', gs) # _ \<Rightarrow> Some gs)"

text \<open>
  The pattern is written in the source as the raw string
  \<^verbatim>\<open>r'(\\d{1,2})\\s+(Januari|...|Desember)\\s+(\\d{4})'\<close>.  In a raw string \<^verbatim>\<open>\\\<close> stays two
  characters, and the \<^verbatim>\<open>re\<close> module reads \<^verbatim>\<open>\\\<close> as one literal backslash; so \<^verbatim>\<open>\\d{1,2}\<close> is a
  backslash followed by one or two letters \<^verbatim>\<open>d\<close>, and \<^verbatim>\<open>\\s+\<close> is a backslash followed by one
  or more letters \<^verbatim>\<open>s\<close>.
\<close>

definition backslash :: char where
  "backslash = CHR 0x5C"

definition month_names :: rx where
  "month_names =
     Alt (Str ''Januari'') (Alt (Str ''Februari'') (Alt (Str ''Maret'') (Alt (Str ''April'')
     (Alt (Str ''Mei'') (Alt (Str ''Juni'') (Alt (Str ''Juli'') (Alt (Str ''Agustus'')
     (Alt (Str ''September'') (Alt (Str ''Oktober'') (Alt (Str ''November'')
     (Str ''Desember'')))))))))))"

definition id_date_pattern :: rx where
  "id_date_pattern =
     Seq (Grp (Seq (Chr backslash) (Rep (CHR ''d'') 1 (Some 2))))
    (Seq (Chr backslash) (Seq (Rep (CHR ''s'') 1 None)
    (Seq (Grp month_names)
    (Seq (Chr backslash) (Seq (Rep (CHR ''s'') 1 None)
         (Grp (Seq (Chr backslash) (Rep (CHR ''d'') 4 (Some 4)))))))))"

text \<open>The month map \<^verbatim>\<open>bulan\<close>.\<close>

definition bulan :: "string \<rightharpoonup> int" where
  "bulan = map_of
     [(''Januari'', 1), (''Februari'', 2), (''Maret'', 3), (''April'', 4), (''Mei'', 5),
      (''Juni'', 6), (''Juli'', 7), (''Agustus'', 8), (''September'', 9), (''Oktober'', 10),
      (''November'', 11), (''Desember'', 12)]"

text \<open>
  \<^verbatim>\<open>parse_id_date\<close>.  The two \<^verbatim>\<open>int(...)\<close> calls and the lookup in \<^verbatim>\<open>bulan\<close> stand before the
  \<^verbatim>\<open>try\<close>, so what they raise leaves the function; only the \<^verbatim>\<open>datetime(...)\<close> constructor
  is guarded.  A lookup of a captured month name cannot miss.
\<close>

definition parse_id_date :: "pyval \<Rightarrow> error + pyval" where
  "parse_id_date tx =
     (case tx of
        PyNone \<Rightarrow> Inr PyNone
      | PyStr s \<Rightarrow>
          if s = [] then Inr PyNone
          else (case re_search id_date_pattern s of
                  Some [g1, g2, g3] \<Rightarrow>
                    (case py_int g1 of
                       Inl e \<Rightarrow> Inl e
                     | Inr d \<Rightarrow>
                         (case bulan g2 of
                            None \<Rightarrow> Inl ValueError
                          | Some mon \<Rightarrow>
                              (case py_int g3 of
                                 Inl e \<Rightarrow> Inl e
                               | Inr y \<Rightarrow>
                                   (case datetime_isoformat y mon d of
                                      Inl e \<Rightarrow> Inr PyNone
                                    | Inr txt_iso \<Rightarrow> Inr (PyStr txt_iso)))))
                | _ \<Rightarrow> Inr PyNone))"

section \<open>Source adapters that request every candidate page\<close>

text \<open>
  What a scraper sees of a parsed page.  \<^verbatim>\<open>selected\<close> is the result of the one
  \<^verbatim>\<open>soup.select(...)\<close> call that the scraper makes on its listing page: the anchors in
  document order, each with the value of \<^verbatim>\<open>a.get("href")\<close> and of \<^verbatim>\<open>a.get_text(strip=True)\<close>.
  \<^verbatim>\<open>time_tag\<close> is \<^verbatim>\<open>find("time")\<close>: the \<^verbatim>\<open>datetime\<close> attribute and the stripped text of the
  first \<^verbatim>\<open>time\<close> element, if the page has one.  \<^verbatim>\<open>heading\<close> is the stripped text of
  \<^verbatim>\<open>find(["h1", "h2", "h3"])\<close>, and \<^verbatim>\<open>body_text\<close> is \<^verbatim>\<open>get_text(" ", strip=True)\<close>.
\<close>

record anchor =
  href :: pyval
  anchor_text :: string

record page =
  selected :: "anchor list"
  time_tag :: "(pyval \<times> string) option"
  heading :: "string option"
  body_text :: string

text \<open>The \<^verbatim>\<open>dict\<close> literal with the four keys that every scraper appends.\<close>

definition mk_item :: "pyval \<Rightarrow> pyval \<Rightarrow> string \<Rightarrow> pyval \<Rightarrow> item" where
  "mk_item t u s pub =
     [''title'' \<mapsto> t, ''url'' \<mapsto> u, ''source'' \<mapsto> PyStr s, ''published_at'' \<mapsto> pub]"

text \<open>\<^verbatim>\<open>href if href.startswith("http") else site + href\<close>.\<close>

definition absolute :: "string \<Rightarrow> string \<Rightarrow> string" where
  "absolute site h = (if prefix ''http'' h then h else site @ h)"

text \<open>
  The timestamp read from an article page:
  \<^verbatim>\<open>time_tag["datetime"]\<close> if the attribute is there and not empty, else the text of the
  element if it is not empty, else \<^verbatim>\<open>pub\<close> keeps its initial \<^verbatim>\<open>None\<close>.
\<close>

definition time_tag_pub :: "page \<Rightarrow> pyval" where
  "time_tag_pub p =
     (case time_tag p of
        None \<Rightarrow> PyNone
      | Some (dt, tx) \<Rightarrow> if truthy dt then dt else if tx \<noteq> [] then PyStr tx else PyNone)"

text \<open>
  The loop of \<^verbatim>\<open>scraper_detik\<close>, \<^verbatim>\<open>scraper_tribunjatim\<close> and \<^verbatim>\<open>scraper_wartajombang\<close>; the three
  bodies differ in the site prefix and the source name only.  \<^verbatim>\<open>fetch i u\<close> is the outcome of
  the request made for the anchor at position \<^verbatim>\<open>i\<close> of the loop, with \<^verbatim>\<open>raise_for_status\<close> and
  the parse of the answer: the page, or the exception raised inside the \<^verbatim>\<open>try\<close>.  \<^verbatim>\<open>clock i\<close>
  is the reading of \<^verbatim>\<open>datetime.utcnow().isoformat()\<close> taken for that anchor.  The handler is
  \<^verbatim>\<open>except Exception\<close>, which catches every \<^verbatim>\<open>error\<close>.
\<close>

fun detail_loop ::
  "string \<Rightarrow> string \<Rightarrow> (nat \<Rightarrow> string \<Rightarrow> error + page) \<Rightarrow> (nat \<Rightarrow> string) \<Rightarrow> nat
   \<Rightarrow> anchor list \<Rightarrow> item list"
where
  "detail_loop site src fetch clock i [] = []"
| "detail_loop site src fetch clock i (a # as) =
     (if \<not> truthy (href a) then detail_loop site src fetch clock (i + 1) as
      else (case href a of
              PyNone \<Rightarrow> detail_loop site src fetch clock (i + 1) as
            | PyStr h \<Rightarrow>
                (let u = absolute site h;
                     pub = (case fetch i u of
                              Inl e \<Rightarrow> PyStr (clock i)
                            | Inr s2 \<Rightarrow> time_tag_pub s2)
                 in mk_item (PyStr (anchor_text a)) (PyStr u) src pub
                    # detail_loop site src fetch clock (i + 1) as)))"

text \<open>
  The scrapers.  \<^verbatim>\<open>listing\<close> is the outcome of the request for the listing page; an exception
  there gives the empty list.  \<^verbatim>\<open>limit\<close> is the bound of the slice \<^verbatim>\<open>[:limit]\<close>; \<^verbatim>\<open>crawl_all\<close>
  calls every scraper with the default 20.
\<close>

definition scraper_detik ::
  "error + page \<Rightarrow> (nat \<Rightarrow> string \<Rightarrow> error + page) \<Rightarrow> (nat \<Rightarrow> string) \<Rightarrow> nat \<Rightarrow> item list"
where
  "scraper_detik listing fetch clock limit =
     (case listing of
        Inl e \<Rightarrow> []
      | Inr soup \<Rightarrow>
          detail_loop ''https://www.detik.com'' ''detik.com'' fetch clock 0
            (take limit (selected soup)))"

definition scraper_tribunjatim ::
  "error + page \<Rightarrow> (nat \<Rightarrow> string \<Rightarrow> error + page) \<Rightarrow> (nat \<Rightarrow> string) \<Rightarrow> nat \<Rightarrow> item list"
where
  "scraper_tribunjatim listing fetch clock limit =
     (case listing of
        Inl e \<Rightarrow> []
      | Inr soup \<Rightarrow>
          detail_loop ''https://jatim.tribunnews.com'' ''tribunjatim'' fetch clock 0
            (take limit (selected soup)))"

definition scraper_wartajombang ::
  "error + page \<Rightarrow> (nat \<Rightarrow> string \<Rightarrow> error + page) \<Rightarrow> (nat \<Rightarrow> string) \<Rightarrow> nat \<Rightarrow> item list"
where
  "scraper_wartajombang listing fetch clock limit =
     (case listing of
        Inl e \<Rightarrow> []
      | Inr soup \<Rightarrow>
          detail_loop ''https://wartajombang.com'' ''wartajombang'' fetch clock 0
            (take limit (selected soup)))"

text \<open>
  \<^verbatim>\<open>scraper_jombangkab\<close>.  First the candidate links: an anchor without \<^verbatim>\<open>href\<close> is skipped, a
  relative address gets the host in front, and only addresses that contain \<^verbatim>\<open>/berita/\<close> and
  have at least five slashes are kept.
\<close>

definition jombangkab_href :: "anchor \<Rightarrow> string option" where
  "jombangkab_href a =
     (case href a of
        PyNone \<Rightarrow> None
      | PyStr h \<Rightarrow>
          if h = [] then None
          else (let h' = (if prefix ''/'' h then ''https://www.jombangkab.go.id'' @ h else h)
                in if str_contains ''/berita/'' h' \<and> 5 \<le> count_list h' (CHR ''/'')
                   then Some h' else None))"

text \<open>The de-duplication that keeps the first occurrence; \<^verbatim>\<open>seen\<close> is the set of the source.\<close>

fun dedupe :: "string set \<Rightarrow> string list \<Rightarrow> string list" where
  "dedupe seen [] = []"
| "dedupe seen (u # us) =
     (if u \<in> seen then dedupe seen us else u # dedupe (insert u seen) us)"

definition jombangkab_links :: "page \<Rightarrow> nat \<Rightarrow> string list" where
  "jombangkab_links soup limit =
     take limit (dedupe {} (List.map_filter jombangkab_href (selected soup)))"

text \<open>
  The loop over the links.  A request that fails takes the \<^verbatim>\<open>continue\<close> of the handler: nothing
  is appended for that link.  The title is read from the article page.  \<^verbatim>\<open>parse_id_date\<close> is
  called outside every \<^verbatim>\<open>try\<close>, so what it raises leaves the scraper.
\<close>

fun jombangkab_loop ::
  "(nat \<Rightarrow> string \<Rightarrow> error + page) \<Rightarrow> (nat \<Rightarrow> string) \<Rightarrow> nat \<Rightarrow> string list
   \<Rightarrow> error + item list"
where
  "jombangkab_loop fetch clock i [] = Inr []"
| "jombangkab_loop fetch clock i (u # us) =
     (case fetch i u of
        Inl e \<Rightarrow> jombangkab_loop fetch clock (i + 1) us
      | Inr art \<Rightarrow>
          (case parse_id_date (PyStr (body_text art)) of
             Inl e \<Rightarrow> Inl e
           | Inr p \<Rightarrow>
               (let pub = (if \<not> truthy p then PyStr (clock i) else p);
                    t = (case heading art of None \<Rightarrow> PyNone | Some h \<Rightarrow> PyStr h)
                in case jombangkab_loop fetch clock (i + 1) us of
                     Inl e \<Rightarrow> Inl e
                   | Inr items \<Rightarrow>
                       Inr (if truthy t \<and> u \<noteq> []
                            then mk_item t (PyStr u) ''jombangkab.go.id'' pub # items
                            else items))))"

definition scraper_jombangkab ::
  "error + page \<Rightarrow> (nat \<Rightarrow> string \<Rightarrow> error + page) \<Rightarrow> (nat \<Rightarrow> string) \<Rightarrow> nat
   \<Rightarrow> error + item list"
where
  "scraper_jombangkab listing fetch clock limit =
     (case listing of
        Inl e \<Rightarrow> Inr []
      | Inr soup \<Rightarrow> jombangkab_loop fetch clock 0 (jombangkab_links soup limit))"

section \<open>Calendar arithmetic of \<^verbatim>\<open>datetime\<close> and \<^verbatim>\<open>timedelta\<close>\<close>

text \<open>
  A \<^verbatim>\<open>date\<close> is a year, a month and a day.  Adding a \<^verbatim>\<open>timedelta\<close> of whole days moves the
  date day by day; a result before 0001-01-01 or after 9999-12-31 raises \<^verbatim>\<open>OverflowError\<close>.
\<close>

type_synonym pydate = "nat \<times> nat \<times> nat"

definition next_day :: "pydate \<Rightarrow> pydate" where
  "next_day ymd =
     (case ymd of (y, m, d) \<Rightarrow>
        if d < days_in_month y m then (y, m, d + 1)
        else if m < 12 then (y, m + 1, 1)
        else (y + 1, 1, 1))"

definition prev_day :: "pydate \<Rightarrow> pydate" where
  "prev_day ymd =
     (case ymd of (y, m, d) \<Rightarrow>
        if 1 < d then (y, m, d - 1)
        else if 1 < m then (y, m - 1, days_in_month y (m - 1))
        else (y - 1, 12, 31))"

fun date_add :: "pydate \<Rightarrow> nat \<Rightarrow> error + pydate" where
  "date_add d 0 = Inr d"
| "date_add d (Suc n) =
     (if d = (9999, 12, 31) then Inl OverflowError else date_add (next_day d) n)"

fun date_sub :: "pydate \<Rightarrow> nat \<Rightarrow> error + pydate" where
  "date_sub d 0 = Inr d"
| "date_sub d (Suc n) =
     (if d = (1, 1, 1) then Inl OverflowError else date_sub (prev_day d) n)"

text \<open>A number that grows with the date, to compare two dates of the calendar.\<close>

definition date_key :: "pydate \<Rightarrow> nat" where
  "date_key ymd = (case ymd of (y, m, d) \<Rightarrow> y * 10000 + m * 100 + d)"

text \<open>\<^verbatim>\<open>d + timedelta(days=n)\<close> for an integer \<^verbatim>\<open>n\<close> of either sign.\<close>

definition shift_date :: "pydate \<Rightarrow> int \<Rightarrow> error + pydate" where
  "shift_date d n = (if 0 \<le> n then date_add d (nat n) else date_sub d (nat (- n)))"

text \<open>
  A \<^verbatim>\<open>datetime\<close> without time zone, as \<^verbatim>\<open>datetime.utcnow()\<close> returns it, and its
  \<^verbatim>\<open>isoformat()\<close>: the fraction of the second is printed only when it is not zero.
\<close>

record pydatetime =
  date_of :: pydate
  dt_hour :: nat
  dt_minute :: nat
  dt_second :: nat
  dt_microsecond :: nat

definition pad6 :: "nat \<Rightarrow> string" where
  "pad6 n = [digit_char (n div 100000), digit_char (n div 10000), digit_char (n div 1000),
             digit_char (n div 100), digit_char (n div 10), digit_char n]"

definition isoformat :: "pydatetime \<Rightarrow> string" where
  "isoformat t =
     date_iso (date_of t) @ ''T'' @ pad2 (dt_hour t) @ '':'' @ pad2 (dt_minute t) @ '':''
     @ pad2 (dt_second t)
     @ (if dt_microsecond t = 0 then [] else ''.'' @ pad6 (dt_microsecond t))"

section \<open>The daily counts of \<^verbatim>\<open>api_trend\<close>\<close>

text \<open>
  \<^verbatim>\<open>int(request.args.get("days", 7))\<close>: the query parameter is a string when the request has
  it, and the default is the integer 7.
\<close>

definition days_arg :: "string option \<Rightarrow> error + int" where
  "days_arg a = (case a of None \<Rightarrow> Inr 7 | Some s \<Rightarrow> py_int s)"

text \<open>
  \<^verbatim>\<open>since = datetime.utcnow() - timedelta(days=days)\<close>.  \<^verbatim>\<open>timedelta\<close> raises \<^verbatim>\<open>OverflowError\<close>
  for more than 999999999 days; the subtraction keeps the time of day.
\<close>

definition since_of :: "pydatetime \<Rightarrow> int \<Rightarrow> error + pydatetime" where
  "since_of now days =
     (if 999999999 < \<bar>days\<bar> then Inl OverflowError
      else (case shift_date (date_of now) (- days) of
              Inl e \<Rightarrow> Inl e
            | Inr d \<Rightarrow> Inr (now\<lparr>date_of := d\<rparr>)))"

text \<open>
  The \<^verbatim>\<open>WHERE\<close> clause \<^verbatim>\<open>datetime(published_at) >= datetime(?)\<close>.  The SQL function
  \<^verbatim>\<open>datetime\<close> belongs to SQLite and is the parameter \<^verbatim>\<open>dt\<close>: the normalized text
  \<^verbatim>\<open>YYYY-MM-DD HH:MM:SS\<close>, or \<^verbatim>\<open>NULL\<close> (here \<^verbatim>\<open>None\<close>) for a text it cannot read.  Texts are
  compared byte by byte, and a comparison with \<^verbatim>\<open>NULL\<close> selects no row.
\<close>

definition where_since :: "(string \<Rightarrow> string option) \<Rightarrow> string \<Rightarrow> article \<Rightarrow> bool" where
  "where_since dt since_iso r =
     (case dt (published_at r) of
        None \<Rightarrow> False
      | Some p \<Rightarrow> (case dt since_iso of None \<Rightarrow> False | Some s \<Rightarrow> s \<le> p))"

text \<open>
  The query: \<^verbatim>\<open>SELECT substr(published_at, 1, 10) as d, COUNT(*) as c ... GROUP BY d ORDER BY
  d ASC\<close>, one pair for every value of \<^verbatim>\<open>d\<close> among the selected rows.
\<close>

definition day_key :: "article \<Rightarrow> string" where
  "day_key r = take 10 (published_at r)"

definition trend_query ::
  "(string \<Rightarrow> string option) \<Rightarrow> article list \<Rightarrow> string \<Rightarrow> (string \<times> nat) list"
where
  "trend_query dt rows since_iso =
     (let sel = filter (where_since dt since_iso) rows
      in map (\<lambda>d. (d, length (filter (\<lambda>r. day_key r = d) sel)))
           (sort (remdups (map day_key sel))))"

text \<open>\<^verbatim>\<open>[since.date() + timedelta(days=i) for i in range(days+1)]\<close>.\<close>

fun day_iter :: "pydate \<Rightarrow> nat list \<Rightarrow> error + pydate list" where
  "day_iter d [] = Inr []"
| "day_iter d (i # js) =
     (case date_add d i of
        Inl e \<Rightarrow> Inl e
      | Inr x \<Rightarrow> (case day_iter d js of Inl e \<Rightarrow> Inl e | Inr xs \<Rightarrow> Inr (x # xs)))"

text \<open>
  The handler.  \<^verbatim>\<open>arg\<close> is the query parameter \<^verbatim>\<open>days\<close> of the request, \<^verbatim>\<open>now\<close> the reading of
  \<^verbatim>\<open>datetime.utcnow()\<close>, \<^verbatim>\<open>rows\<close> the table.  The result is the pair of the lists \<^verbatim>\<open>labels\<close>
  and \<^verbatim>\<open>counts\<close> of the JSON answer, or the exception that leaves the handler.
  \<^verbatim>\<open>map_counts.get(d.isoformat(), 0)\<close> is the lookup with the default \<^verbatim>\<open>0\<close>.
\<close>

definition api_trend ::
  "(string \<Rightarrow> string option) \<Rightarrow> pydatetime \<Rightarrow> string option \<Rightarrow> article list
   \<Rightarrow> error + (string list \<times> nat list)"
where
  "api_trend dt now arg rows =
     (case days_arg arg of
        Inl e \<Rightarrow> Inl e
      | Inr days \<Rightarrow>
          (case since_of now days of
             Inl e \<Rightarrow> Inl e
           | Inr since \<Rightarrow>
               (let data = trend_query dt rows (isoformat since)
                in case day_iter (date_of since) [0 ..< nat (days + 1)] of
                     Inl e \<Rightarrow> Inl e
                   | Inr ds \<Rightarrow>
                       Inr (map date_iso ds,
                            map (\<lambda>d. case map_of data (date_iso d) of
                                        None \<Rightarrow> 0
                                      | Some c \<Rightarrow> c) ds))))"

section \<open>Properties of the categorizer\<close>

lemma py_lower_eval [simp]: "py_lower [] = []" "py_lower (c # s) = py_lower_char c # py_lower s"
  by (simp_all add: py_lower_def)

lemma str_contains_sublist: "str_contains kw t \<longleftrightarrow> sublist kw t"
  by (induction t) (auto simp: sublist_Cons_right)

lemma scan_keywords_iff: "scan_keywords kws t \<longleftrightarrow> (\<exists>kw \<in> set kws. sublist kw t)"
  by (induction kws) (auto simp: str_contains_sublist)

lemma scan_categories_in: "scan_categories tbl t \<in> insert ''Lainnya'' (fst ` set tbl)"
  by (induction tbl t rule: scan_categories.induct) auto

lemma scan_categories_first:
  assumes "i < length tbl"
    and "\<exists>kw \<in> set (snd (tbl ! i)). sublist kw t"
    and "\<forall>j < i. \<forall>kw \<in> set (snd (tbl ! j)). \<not> sublist kw t"
  shows "scan_categories tbl t = fst (tbl ! i)"
  using assms
proof (induction tbl t arbitrary: i rule: scan_categories.induct)
  case (1 t)
  then show ?case by simp
next
  case (2 cat kws rest t)
  show ?case
  proof (cases i)
    case 0
    with "2.prems" show ?thesis by (simp add: scan_keywords_iff)
  next
    case (Suc k)
    from "2.prems"(3) Suc have no: "\<not> scan_keywords kws t"
      by (auto simp: scan_keywords_iff)
    have "scan_categories rest t = fst (rest ! k)"
    proof (rule "2.IH" [OF no])
      show "k < length rest" using "2.prems"(1) Suc by simp
      show "\<exists>kw \<in> set (snd (rest ! k)). sublist kw t" using "2.prems"(2) Suc by simp
      show "\<forall>j < k. \<forall>kw \<in> set (snd (rest ! j)). \<not> sublist kw t"
      proof (intro allI impI)
        fix j assume "j < k"
        then have "Suc j < i" using Suc by simp
        with "2.prems"(3) have "\<forall>kw \<in> set (snd (((cat, kws) # rest) ! Suc j)). \<not> sublist kw t"
          by blast
        then show "\<forall>kw \<in> set (snd (rest ! j)). \<not> sublist kw t" by simp
      qed
    qed
    with no Suc show ?thesis by simp
  qed
qed

lemma scan_categories_none:
  "\<forall>(cat, kws) \<in> set tbl. \<forall>kw \<in> set kws. \<not> sublist kw t \<Longrightarrow> scan_categories tbl t = ''Lainnya''"
  by (induction tbl t rule: scan_categories.induct) (auto simp: scan_keywords_iff)

lemma categorize_in_CATEGORIES: "categorize tx \<in> CATEGORIES"
proof (cases tx)
  case PyNone
  then show ?thesis by (simp add: categorize_def CATEGORIES_def)
next
  case (PyStr s)
  have "scan_categories CATEGORY_KEYWORDS (py_lower s) \<in> CATEGORIES"
    using scan_categories_in [of CATEGORY_KEYWORDS "py_lower s"]
    by (simp add: CATEGORY_KEYWORDS_def CATEGORIES_def)
  with PyStr show ?thesis by (simp add: categorize_def CATEGORIES_def)
qed

text \<open>
  Claim C4.  \<^verbatim>\<open>categorize\<close> answers the catch-all \<^verbatim>\<open>Lainnya\<close> for \<^verbatim>\<open>None\<close> and for the empty
  string; every answer is one of the five category names; on a non-empty text the answer
  is the first category of the table, in the order of declaration, one of whose keywords
  is a substring of the lower-cased text, whatever later categories match as well; and it
  is \<^verbatim>\<open>Lainnya\<close> when no keyword of the table is a substring of the lower-cased text.
  The answer depends on the text alone.
\<close>

theorem categorize_first_match:
  "categorize PyNone = ''Lainnya'' \<and> categorize (PyStr []) = ''Lainnya''
   \<and> (\<forall>tx. categorize tx \<in> CATEGORIES)
   \<and> (\<forall>s i. s \<noteq> [] \<and> i < length CATEGORY_KEYWORDS
          \<and> (\<exists>kw \<in> set (snd (CATEGORY_KEYWORDS ! i)). sublist kw (py_lower s))
          \<and> (\<forall>j < i. \<forall>kw \<in> set (snd (CATEGORY_KEYWORDS ! j)). \<not> sublist kw (py_lower s))
        \<longrightarrow> categorize (PyStr s) = fst (CATEGORY_KEYWORDS ! i))
   \<and> (\<forall>s. (\<forall>(cat, kws) \<in> set CATEGORY_KEYWORDS. \<forall>kw \<in> set kws. \<not> sublist kw (py_lower s))
        \<longrightarrow> categorize (PyStr s) = ''Lainnya'')
   \<and> (\<forall>tx tx'. tx = tx' \<longrightarrow> categorize tx = categorize tx')"
proof (intro conjI allI impI)
  show "categorize PyNone = ''Lainnya''" by (simp add: categorize_def)
  show "categorize (PyStr []) = ''Lainnya''" by (simp add: categorize_def)
  show "categorize tx \<in> CATEGORIES" for tx by (rule categorize_in_CATEGORIES)
next
  fix s i
  assume h: "s \<noteq> [] \<and> i < length CATEGORY_KEYWORDS
          \<and> (\<exists>kw \<in> set (snd (CATEGORY_KEYWORDS ! i)). sublist kw (py_lower s))
          \<and> (\<forall>j < i. \<forall>kw \<in> set (snd (CATEGORY_KEYWORDS ! j)). \<not> sublist kw (py_lower s))"
  then have "scan_categories CATEGORY_KEYWORDS (py_lower s) = fst (CATEGORY_KEYWORDS ! i)"
    by (intro scan_categories_first) blast+
  with h show "categorize (PyStr s) = fst (CATEGORY_KEYWORDS ! i)"
    by (simp add: categorize_def)
next
  fix s
  assume "\<forall>(cat, kws) \<in> set CATEGORY_KEYWORDS. \<forall>kw \<in> set kws. \<not> sublist kw (py_lower s)"
  then have "scan_categories CATEGORY_KEYWORDS (py_lower s) = ''Lainnya''"
    by (rule scan_categories_none)
  then show "categorize (PyStr s) = ''Lainnya''" by (simp add: categorize_def)
next
  fix tx tx' :: pyval
  assume "tx = tx'"
  then show "categorize tx = categorize tx'" by simp
qed

theorem categorize_first_match_witness:
  "categorize (PyStr ''Harga Pasar dan Liga Voli'') = ''Ekonomi''
   \<and> categorize (PyStr ''Cuaca cerah hari ini'') = ''Lainnya''"
proof -
  let ?s = "''Harga Pasar dan Liga Voli''"
  have low: "py_lower ?s = ''harga pasar dan liga voli''"
    by (simp add: py_lower_char_def is_upper_def)
  have h1: "?s \<noteq> [] \<and> (1::nat) < length CATEGORY_KEYWORDS
          \<and> (\<exists>kw \<in> set (snd (CATEGORY_KEYWORDS ! 1)). sublist kw (py_lower ?s))
          \<and> (\<forall>j < (1::nat). \<forall>kw \<in> set (snd (CATEGORY_KEYWORDS ! j)). \<not> sublist kw (py_lower ?s))"
    unfolding low by (simp add: CATEGORY_KEYWORDS_def str_contains_sublist [symmetric])
  let ?t = "''Cuaca cerah hari ini''"
  have low2: "py_lower ?t = ''cuaca cerah hari ini''"
    by (simp add: py_lower_char_def is_upper_def)
  have h2: "\<forall>(cat, kws) \<in> set CATEGORY_KEYWORDS. \<forall>kw \<in> set kws. \<not> sublist kw (py_lower ?t)"
    unfolding low2 by (simp add: CATEGORY_KEYWORDS_def str_contains_sublist [symmetric])
  note T = categorize_first_match
  have a: "categorize (PyStr ?s) = fst (CATEGORY_KEYWORDS ! 1)"
    using T [THEN conjunct2, THEN conjunct2, THEN conjunct2, THEN conjunct1,
             THEN spec, THEN spec, THEN mp, OF h1] .
  have b: "categorize (PyStr ?t) = ''Lainnya''"
    using T [THEN conjunct2, THEN conjunct2, THEN conjunct2, THEN conjunct2, THEN conjunct1,
             THEN spec, THEN mp, OF h2] .
  from a b show ?thesis by (simp add: CATEGORY_KEYWORDS_def)
qed

section \<open>Properties of the article table and of \<^verbatim>\<open>save_articles\<close>\<close>

lemma insert_or_ignore_result:
  "insert_or_ignore t u s p c cat rows = (rows, 0)
   \<or> (\<exists>r. insert_or_ignore t u s p c cat rows = (rows @ [r], 1) \<and> PyStr (url r) = u
           \<and> url r \<notin> url ` set rows)"
  by (cases "(t, u, s, p, c, cat, rows)" rule: insert_or_ignore.cases) auto


lemma insert_or_ignore_null_title: "insert_or_ignore PyNone u s p c cat rows = (rows, 0)"
  by simp

lemma insert_or_ignore_null_url: "insert_or_ignore t PyNone s p c cat rows = (rows, 0)"
  by (cases t) simp_all





lemma save_loop_append:
  "save_loop clock k (xs @ ys) rows tot =
     (case save_loop clock k xs rows tot of
        Inl e \<Rightarrow> Inl e
      | Inr (rows1, tot1) \<Rightarrow> save_loop clock (k + 2 * length xs) ys rows1 tot1)"
proof (induction xs arbitrary: k rows tot)
  case Nil
  then show ?case by simp
next
  case (Cons a xs)
  show ?case
  proof (cases "save_one clock k a rows")
    case (Inl e)
    then show ?thesis by simp
  next
    case (Inr p)
    obtain rows' rc where p: "p = (rows', rc)" by (cases p)
    have e: "k + 2 * length (a # xs) = (k + 2) + 2 * length xs" by simp
    show ?thesis
      unfolding e using Inr p Cons.IH [of "k + 2" rows'] by simp
  qed
qed

lemma save_loop_no_raise:
  "\<forall>b \<in> set items. \<exists>v. categorize_arg b = Inr v
   \<Longrightarrow> \<exists>rows' tot'. save_loop clock k items rows tot = Inr (rows', tot')"
proof (induction items arbitrary: k rows tot)
  case Nil
  then show ?case by simp
next
  case (Cons a items)
  from Cons.prems obtain v where v: "categorize_arg a = Inr v" by auto
  obtain rows1 rc where s1: "save_one clock k a rows = Inr (rows1, rc)"
    using v by (cases "insert_or_ignore (dict_get a ''title'') (dict_get a ''url'')
          (dict_get_default a ''source'' (PyStr [])) (dict_get_default a ''published_at'' (PyStr (clock k)))
          (PyStr (clock (k + 1))) (categorize v) rows") (simp add: save_one_def Let_def)
  from Cons.prems have "\<forall>b \<in> set items. \<exists>v. categorize_arg b = Inr v" by simp
  from Cons.IH [OF this] s1 show ?case by simp
qed

lemma categorize_arg_no_summary:
  "\<not> truthy (dict_get a ''summary'') \<Longrightarrow> categorize_arg a = Inr (dict_get a ''title'')"
  by (simp add: categorize_arg_def)

lemma categorize_arg_title_str:
  "dict_get a ''title'' = PyStr t \<Longrightarrow> \<exists>v. categorize_arg a = Inr v"
  by (cases "dict_get_default a ''summary'' (PyStr [])")
     (auto simp: categorize_arg_def dict_get_def dict_get_default_def split: option.splits)

lemma save_one_title_absent:
  "dict_get a ''title'' = PyNone \<Longrightarrow> \<not> truthy (dict_get a ''summary'')
   \<Longrightarrow> save_one clock k a rows = Inr (rows, 0)"
  by (simp add: save_one_def categorize_arg_no_summary)


lemma save_articles_single:
  "save_articles clock [a] rows =
     (case save_one clock 0 a rows of
        Inl e \<Rightarrow> (Inl e, rows)
      | Inr (rows', rc) \<Rightarrow> (Inr (if rc \<noteq> 0 then 1 else 0), rows'))"
  by (simp add: save_articles_def split: sum.splits)

lemma save_one_rows:
  assumes "save_one clock k a rows = Inr (rows', rc)"
  shows "(rows' = rows \<and> rc = 0)
         \<or> (\<exists>r. rows' = rows @ [r] \<and> rc = 1 \<and> PyStr (url r) = dict_get a ''url''
                \<and> url r \<notin> url ` set rows)"
proof -
  from assms obtain v where v: "categorize_arg a = Inr v"
    by (auto simp: save_one_def Let_def split: sum.splits)
  with assms have "insert_or_ignore (dict_get a ''title'') (dict_get a ''url'')
      (dict_get_default a ''source'' (PyStr []))
      (dict_get_default a ''published_at'' (PyStr (clock k)))
      (PyStr (clock (k + 1))) (categorize v) rows = (rows', rc)"
    by (simp add: save_one_def Let_def)
  with insert_or_ignore_result [of "dict_get a ''title''" "dict_get a ''url''"
      "dict_get_default a ''source'' (PyStr [])"
      "dict_get_default a ''published_at'' (PyStr (clock k))"
      "PyStr (clock (k + 1))" "categorize v" rows]
  show ?thesis by auto
qed


lemma dict_get_upd [simp]:
  "dict_get (m(k \<mapsto> v)) k' = (if k' = k then v else dict_get m k')"
  "dict_get Map.empty k' = PyNone"
  by (simp_all add: dict_get_def)

lemma dict_get_default_upd [simp]:
  "dict_get_default (m(k \<mapsto> v)) k' d = (if k' = k then v else dict_get_default m k' d)"
  "dict_get_default Map.empty k' d = d"
  by (simp_all add: dict_get_default_def)

lemma categorize_bupati: "categorize (PyStr ''Bupati resmikan jalan'') = ''Pemerintahan''"
  by (simp add: categorize_def CATEGORY_KEYWORDS_def py_lower_char_def is_upper_def)






text \<open>
  Claim C10.  An item whose title is absent (\<^verbatim>\<open>None\<close>) and which has no summary does not make
  \<^verbatim>\<open>save_articles\<close> raise: its loop step leaves the table and the running total as they
  were, a batch made of that item alone returns \<^verbatim>\<open>0\<close>, the items after it in a batch are
  processed from the state the items before it left, and a batch whose other items do not
  raise returns normally.
\<close>

theorem save_articles_title_absent:
  assumes "dict_get a ''title'' = PyNone" and "\<not> truthy (dict_get a ''summary'')"
  shows "save_one clock k a rows = Inr (rows, 0)
       \<and> save_articles clock [a] rows = (Inr 0, rows)
       \<and> save_loop clock k (xs @ a # ys) rows tot =
           (case save_loop clock k xs rows tot of
              Inl e \<Rightarrow> Inl e
            | Inr (rows1, tot1) \<Rightarrow> save_loop clock (k + 2 * length xs + 2) ys rows1 tot1)
       \<and> ((\<forall>b \<in> set (xs @ ys). \<exists>v. categorize_arg b = Inr v)
            \<longrightarrow> (\<exists>n rows'. save_articles clock (xs @ a # ys) rows = (Inr n, rows')))"
proof (intro conjI impI)
  show one: "save_one clock k a rows = Inr (rows, 0)" for k rows
    by (rule save_one_title_absent [OF assms])
  show "save_articles clock [a] rows = (Inr 0, rows)"
    by (simp add: save_articles_single one)
  show "save_loop clock k (xs @ a # ys) rows tot =
           (case save_loop clock k xs rows tot of
              Inl e \<Rightarrow> Inl e
            | Inr (rows1, tot1) \<Rightarrow> save_loop clock (k + 2 * length xs + 2) ys rows1 tot1)"
    by (simp add: save_loop_append one add.assoc split: sum.splits)
next
  assume h: "\<forall>b \<in> set (xs @ ys). \<exists>v. categorize_arg b = Inr v"
  have "categorize_arg a = Inr (dict_get a ''title'')"
    by (rule categorize_arg_no_summary [OF assms(2)])
  with h have "\<forall>b \<in> set (xs @ a # ys). \<exists>v. categorize_arg b = Inr v" by auto
  from save_loop_no_raise [OF this, of clock 0 rows 0]
  show "\<exists>n rows'. save_articles clock (xs @ a # ys) rows = (Inr n, rows')"
    by (auto simp: save_articles_def)
qed

theorem save_articles_title_absent_witness:
  "save_articles (\<lambda>k. ''2024-01-02T08:00:00'')
     [[''url'' \<mapsto> PyStr ''https://x/0'', ''source'' \<mapsto> PyStr ''s1'',
       ''published_at'' \<mapsto> PyStr ''2024-01-01T00:00:00''],
      [''title'' \<mapsto> PyStr ''Bupati resmikan jalan'', ''url'' \<mapsto> PyStr ''https://x/1'',
       ''source'' \<mapsto> PyStr ''s1'', ''published_at'' \<mapsto> PyStr ''2024-01-01T00:00:00'']] []
   = (Inr 1,
      [\<lparr>title = ''Bupati resmikan jalan'', url = ''https://x/1'', source = ''s1'',
        published_at = ''2024-01-01T00:00:00'', created_at = ''2024-01-02T08:00:00'',
        category = ''Pemerintahan''\<rparr>])"
proof -
  let ?a = "[''url'' \<mapsto> PyStr ''https://x/0'', ''source'' \<mapsto> PyStr ''s1'',
       ''published_at'' \<mapsto> PyStr ''2024-01-01T00:00:00'']"
  let ?b = "[''title'' \<mapsto> PyStr ''Bupati resmikan jalan'', ''url'' \<mapsto> PyStr ''https://x/1'',
       ''source'' \<mapsto> PyStr ''s1'', ''published_at'' \<mapsto> PyStr ''2024-01-01T00:00:00'']"
  let ?clock = "\<lambda>k::nat. ''2024-01-02T08:00:00''"
  have h1: "dict_get ?a ''title'' = PyNone" by simp
  have h2: "\<not> truthy (dict_get ?a ''summary'')" by simp
  note eq = save_articles_title_absent [OF h1 h2, of ?clock 0 "[]" "[]" "[?b]" 0,
      THEN conjunct2, THEN conjunct2, THEN conjunct1]
  have "save_loop ?clock 0 ([] @ ?a # [?b]) [] 0 =
          Inr ([\<lparr>title = ''Bupati resmikan jalan'', url = ''https://x/1'', source = ''s1'',
                 published_at = ''2024-01-01T00:00:00'', created_at = ''2024-01-02T08:00:00'',
                 category = ''Pemerintahan''\<rparr>], 1)"
    by (subst eq) (simp add: save_one_def categorize_arg_def categorize_bupati)
  then have L: "save_loop ?clock 0 [?a, ?b] [] 0 =
          Inr ([\<lparr>title = ''Bupati resmikan jalan'', url = ''https://x/1'', source = ''s1'',
                 published_at = ''2024-01-01T00:00:00'', created_at = ''2024-01-02T08:00:00'',
                 category = ''Pemerintahan''\<rparr>], 1)"
    by (simp only: append_Nil)
  show ?thesis unfolding save_articles_def L by simp
qed

lemma categorize_arg_raises:
  "dict_get a ''title'' = PyNone \<Longrightarrow> truthy (dict_get a ''summary'')
   \<Longrightarrow> categorize_arg a = Inl TypeError"
  by (simp add: categorize_arg_def)

lemma categorize_arg_returns:
  assumes "\<not> (dict_get a ''title'' = PyNone \<and> truthy (dict_get a ''summary''))"
  shows "\<exists>v. categorize_arg a = Inr v"
proof (cases "dict_get a ''title''")
  case PyNone
  with assms have "\<not> truthy (dict_get a ''summary'')" by simp
  from categorize_arg_no_summary [OF this] show ?thesis by blast
next
  case (PyStr t)
  from categorize_arg_title_str [OF this] show ?thesis .
qed

lemma save_articles_raises:
  "categorize_arg a = Inl e \<Longrightarrow> save_articles clock [a] rows = (Inl e, rows)"
  by (simp add: save_articles_single save_one_def Let_def)

lemma save_articles_returns:
  "categorize_arg a = Inr v \<Longrightarrow>
   save_articles clock [a] rows =
     (case insert_or_ignore (dict_get a ''title'') (dict_get a ''url'')
             (dict_get_default a ''source'' (PyStr []))
             (dict_get_default a ''published_at'' (PyStr (clock 0)))
             (PyStr (clock 1)) (categorize v) rows of
        (rows', rc) \<Rightarrow> (Inr (if rc \<noteq> 0 then 1 else 0), rows'))"
  by (simp add: save_articles_single save_one_def Let_def)

lemma insert_or_ignore_null:
  "t = PyNone \<or> u = PyNone \<or> s = PyNone \<or> p = PyNone
   \<Longrightarrow> insert_or_ignore t u s p c cat rows = (rows, 0)"
  by (cases "(t, u, s, p, c, cat, rows)" rule: insert_or_ignore.cases) auto

text \<open>
  Claim C8, as the code has it, for a call of \<^verbatim>\<open>save_articles\<close> on one item.  Whatever the
  url, an item whose title is \<^verbatim>\<open>None\<close> and which has a summary makes the call raise
  \<^verbatim>\<open>TypeError\<close> (from the concatenation of title and summary) with the table unchanged.  For
  every other item the call raises nothing, and: when the url is absent (\<^verbatim>\<open>None\<close>) no row is
  written and \<^verbatim>\<open>0\<close> is returned; when the url is the empty string and the title, source and
  timestamp are strings, a row with the empty url is written and \<^verbatim>\<open>1\<close> is returned, unless a
  row with the empty url is stored already (then \<^verbatim>\<open>0\<close>, table unchanged); when the url is the
  empty string and the title, source or timestamp is \<^verbatim>\<open>None\<close>, no row is written and \<^verbatim>\<open>0\<close> is
  returned.
\<close>

theorem save_articles_empty_url:
  "(dict_get a ''title'' = PyNone \<and> truthy (dict_get a ''summary'')
      \<longrightarrow> save_articles clock [a] rows = (Inl TypeError, rows))
   \<and> (\<not> (dict_get a ''title'' = PyNone \<and> truthy (dict_get a ''summary''))
      \<longrightarrow> (\<exists>n rows'. save_articles clock [a] rows = (Inr n, rows'))
        \<and> (dict_get a ''url'' = PyNone \<longrightarrow> save_articles clock [a] rows = (Inr 0, rows))
        \<and> (dict_get a ''url'' = PyStr [] \<and> dict_get a ''title'' = PyStr t
             \<and> dict_get_default a ''source'' (PyStr []) = PyStr s
             \<and> dict_get_default a ''published_at'' (PyStr (clock 0)) = PyStr p
             \<longrightarrow> save_articles clock [a] rows =
                   (if [] \<in> url ` set rows then (Inr 0, rows)
                    else (Inr 1, rows @ [\<lparr>title = t, url = [], source = s, published_at = p,
                                           created_at = clock 1,
                                           category = categorize (projr (categorize_arg a))\<rparr>])))
        \<and> (dict_get a ''url'' = PyStr []
             \<and> (dict_get a ''title'' = PyNone
                 \<or> dict_get_default a ''source'' (PyStr []) = PyNone
                 \<or> dict_get_default a ''published_at'' (PyStr (clock 0)) = PyNone)
             \<longrightarrow> save_articles clock [a] rows = (Inr 0, rows)))"
proof (intro conjI impI)
  assume "dict_get a ''title'' = PyNone \<and> truthy (dict_get a ''summary'')"
  then have "categorize_arg a = Inl TypeError" by (simp add: categorize_arg_raises)
  then show "save_articles clock [a] rows = (Inl TypeError, rows)"
    by (rule save_articles_raises)
next
  assume ok: "\<not> (dict_get a ''title'' = PyNone \<and> truthy (dict_get a ''summary''))"
  from categorize_arg_returns [OF ok] obtain v where v: "categorize_arg a = Inr v" by blast
  note eq = save_articles_returns [OF v, of clock rows]
  show "\<exists>n rows'. save_articles clock [a] rows = (Inr n, rows')"
    unfolding eq by (simp split: prod.splits)
  {
    assume "dict_get a ''url'' = PyNone"
    then show "save_articles clock [a] rows = (Inr 0, rows)"
      unfolding eq by (simp add: insert_or_ignore_null)
  }
  {
    assume "dict_get a ''url'' = PyStr [] \<and> dict_get a ''title'' = PyStr t
             \<and> dict_get_default a ''source'' (PyStr []) = PyStr s
             \<and> dict_get_default a ''published_at'' (PyStr (clock 0)) = PyStr p"
    then show "save_articles clock [a] rows =
                   (if [] \<in> url ` set rows then (Inr 0, rows)
                    else (Inr 1, rows @ [\<lparr>title = t, url = [], source = s, published_at = p,
                                           created_at = clock 1,
                                           category = categorize (projr (categorize_arg a))\<rparr>]))"
      unfolding eq by (simp add: v)
  }
  {
    assume "dict_get a ''url'' = PyStr []
             \<and> (dict_get a ''title'' = PyNone
                 \<or> dict_get_default a ''source'' (PyStr []) = PyNone
                 \<or> dict_get_default a ''published_at'' (PyStr (clock 0)) = PyNone)"
    then have "insert_or_ignore (dict_get a ''title'') (dict_get a ''url'')
             (dict_get_default a ''source'' (PyStr []))
             (dict_get_default a ''published_at'' (PyStr (clock 0)))
             (PyStr (clock 1)) (categorize v) rows = (rows, 0)"
      by (intro insert_or_ignore_null) blast
    then show "save_articles clock [a] rows = (Inr 0, rows)"
      unfolding eq by simp
  }
qed

theorem save_articles_empty_url_witness:
  "save_articles (\<lambda>k. ''2024-01-02T08:00:00'')
     [[''title'' \<mapsto> PyStr ''Harga cabai naik'', ''url'' \<mapsto> PyStr [],
       ''source'' \<mapsto> PyStr ''s1'', ''published_at'' \<mapsto> PyStr ''2024-01-01T00:00:00'']] []
   = (Inr 1,
      [\<lparr>title = ''Harga cabai naik'', url = [], source = ''s1'',
        published_at = ''2024-01-01T00:00:00'', created_at = ''2024-01-02T08:00:00'',
        category = categorize (PyStr ''Harga cabai naik'')\<rparr>])
   \<and> save_articles (\<lambda>k. ''2024-01-02T08:00:00'')
     [[''title'' \<mapsto> PyStr ''Harga cabai naik'', ''source'' \<mapsto> PyStr ''s1'',
       ''published_at'' \<mapsto> PyStr ''2024-01-01T00:00:00'']] [] = (Inr 0, [])
   \<and> save_articles (\<lambda>k. ''2024-01-02T08:00:00'')
     [[''url'' \<mapsto> PyStr [], ''source'' \<mapsto> PyStr ''s1'',
       ''published_at'' \<mapsto> PyStr ''2024-01-01T00:00:00'']] [] = (Inr 0, [])
   \<and> save_articles (\<lambda>k. ''2024-01-02T08:00:00'')
     [[''url'' \<mapsto> PyStr [], ''source'' \<mapsto> PyStr ''s1'',
       ''summary'' \<mapsto> PyStr ''Ringkasan'']] [] = (Inl TypeError, [])"
proof -
  let ?clock = "\<lambda>k::nat. ''2024-01-02T08:00:00''"
  let ?a = "[''title'' \<mapsto> PyStr ''Harga cabai naik'', ''url'' \<mapsto> PyStr [],
       ''source'' \<mapsto> PyStr ''s1'', ''published_at'' \<mapsto> PyStr ''2024-01-01T00:00:00'']"
  let ?b = "[''title'' \<mapsto> PyStr ''Harga cabai naik'', ''source'' \<mapsto> PyStr ''s1'',
       ''published_at'' \<mapsto> PyStr ''2024-01-01T00:00:00'']"
  let ?c = "[''url'' \<mapsto> PyStr [], ''source'' \<mapsto> PyStr ''s1'',
       ''published_at'' \<mapsto> PyStr ''2024-01-01T00:00:00'']"
  let ?d = "[''url'' \<mapsto> PyStr [], ''source'' \<mapsto> PyStr ''s1'',
       ''summary'' \<mapsto> PyStr ''Ringkasan'']"
  have oka: "\<not> (dict_get ?a ''title'' = PyNone \<and> truthy (dict_get ?a ''summary''))" by simp
  have okb: "\<not> (dict_get ?b ''title'' = PyNone \<and> truthy (dict_get ?b ''summary''))" by simp
  have okc: "\<not> (dict_get ?c ''title'' = PyNone \<and> truthy (dict_get ?c ''summary''))" by simp
  have bad: "dict_get ?d ''title'' = PyNone \<and> truthy (dict_get ?d ''summary'')" by simp
  have pa: "dict_get ?a ''url'' = PyStr [] \<and> dict_get ?a ''title'' = PyStr ''Harga cabai naik''
          \<and> dict_get_default ?a ''source'' (PyStr []) = PyStr ''s1''
          \<and> dict_get_default ?a ''published_at'' (PyStr (?clock 0)) = PyStr ''2024-01-01T00:00:00''"
    by simp
  have ub: "dict_get ?b ''url'' = PyNone" by simp
  have pc: "dict_get ?c ''url'' = PyStr []
             \<and> (dict_get ?c ''title'' = PyNone
                 \<or> dict_get_default ?c ''source'' (PyStr []) = PyNone
                 \<or> dict_get_default ?c ''published_at'' (PyStr (?clock 0)) = PyNone)"
    by simp
  have ca: "categorize_arg ?a = Inr (PyStr ''Harga cabai naik'')"
    by (simp add: categorize_arg_def)
  have A: "save_articles ?clock [?a] [] =
      (if [] \<in> url ` set ([] :: article list) then (Inr 0, [])
       else (Inr 1, [] @ [\<lparr>title = ''Harga cabai naik'', url = [], source = ''s1'',
                published_at = ''2024-01-01T00:00:00'', created_at = ?clock 1,
                category = categorize (projr (categorize_arg ?a))\<rparr>]))"
    using save_articles_empty_url [where a = ?a and clock = ?clock and rows = "[]"
        and t = "''Harga cabai naik''" and s = "''s1''" and p = "''2024-01-01T00:00:00''",
        THEN conjunct2, THEN mp, OF oka, THEN conjunct2, THEN conjunct2, THEN conjunct1,
        THEN mp, OF pa] .
  have B: "save_articles ?clock [?b] [] = (Inr 0, [])"
    using save_articles_empty_url [where a = ?b and clock = ?clock and rows = "[]",
        THEN conjunct2, THEN mp, OF okb, THEN conjunct2, THEN conjunct1, THEN mp, OF ub] .
  have C: "save_articles ?clock [?c] [] = (Inr 0, [])"
    using save_articles_empty_url [where a = ?c and clock = ?clock and rows = "[]",
        THEN conjunct2, THEN mp, OF okc, THEN conjunct2, THEN conjunct2, THEN conjunct2,
        THEN mp, OF pc] .
  have D: "save_articles ?clock [?d] [] = (Inl TypeError, [])"
    using save_articles_empty_url [where a = ?d and clock = ?clock and rows = "[]",
        THEN conjunct1, THEN mp, OF bad] .
  from A B C D show ?thesis unfolding ca by simp
qed

text \<open>
  Claim C8 as stated fails: an item with the empty url is stored and counted, and the call
  returns \<^verbatim>\<open>1\<close> instead of raising.
\<close>

theorem save_articles_empty_url_counterexample:
  "save_articles (\<lambda>k. ''2024-01-02T08:00:00'')
     [[''title'' \<mapsto> PyStr ''Bupati resmikan jalan'', ''url'' \<mapsto> PyStr [],
       ''source'' \<mapsto> PyStr ''s1'', ''published_at'' \<mapsto> PyStr ''2024-01-01T00:00:00'']] []
   = (Inr 1,
      [\<lparr>title = ''Bupati resmikan jalan'', url = [], source = ''s1'',
        published_at = ''2024-01-01T00:00:00'', created_at = ''2024-01-02T08:00:00'',
        category = ''Pemerintahan''\<rparr>])"
  by (simp add: save_articles_single save_one_def categorize_arg_def categorize_bupati)

text \<open>
  Claim C2 at the failing input: the timestamp text \<^verbatim>\<open>25/08/2025\<close> of an item is stored as
  it came, not as the ISO text \<^verbatim>\<open>2025-08-25T00:00:00\<close> of the instant that
  \<^verbatim>\<open>normalize_datetime\<close> parses from it.  The live \<^verbatim>\<open>save_articles\<close> never calls
  \<^verbatim>\<open>normalize_datetime\<close>.
\<close>

theorem save_articles_stores_raw_timestamp:
  "save_articles (\<lambda>k. ''2025-08-26T08:00:00'')
     [[''title'' \<mapsto> PyStr ''Bupati resmikan jalan'', ''url'' \<mapsto> PyStr ''https://x/1'',
       ''source'' \<mapsto> PyStr ''s1'', ''published_at'' \<mapsto> PyStr ''25/08/2025'']] []
   = (Inr 1,
      [\<lparr>title = ''Bupati resmikan jalan'', url = ''https://x/1'', source = ''s1'',
        published_at = ''25/08/2025'', created_at = ''2025-08-26T08:00:00'',
        category = ''Pemerintahan''\<rparr>])"
  by (simp add: save_articles_single save_one_def categorize_arg_def categorize_bupati)

section \<open>Properties of the crawl pass\<close>

lemma save_articles_Nil: "save_articles clock [] rows = (Inr 0, rows)"
  by (simp add: save_articles_def)

lemma crawl_loop_failed_as_empty:
  "crawl_loop clock j (Inl e # ss) st = crawl_loop clock j (Inr [] # ss) st"
  by (simp add: save_articles_Nil)

lemma crawl_loop_append:
  "crawl_loop clock j (xs @ ys) st = crawl_loop clock (j + length xs) ys (crawl_loop clock j xs st)"
proof (induction xs arbitrary: j st)
  case Nil
  then show ?case by simp
next
  case (Cons a xs)
  show ?case
  proof (cases a)
    case (Inl e)
    with Cons.IH [of "j + 1" st] show ?thesis by simp
  next
    case (Inr items)
    obtain r rows' where p: "save_articles (clock j) items (table st) = (r, rows')"
      by (cases "save_articles (clock j) items (table st)")
    show ?thesis
    proof (cases r)
      case (Inl e)
      with Inr p Cons.IH [of "j + 1" "st\<lparr>table := rows'\<rparr>"] show ?thesis by simp
    next
      case n: (Inr n)
      with Inr p Cons.IH [of "j + 1" "st\<lparr>total_count := total_count st + n, table := rows'\<rparr>"]
      show ?thesis by simp
    qed
  qed
qed

lemma crawl_loop_logged: "logged (crawl_loop clock j ss st) = logged st"
proof (induction ss arbitrary: j st)
  case Nil
  then show ?case by simp
next
  case (Cons a ss)
  show ?case
  proof (cases a)
    case (Inl e)
    with Cons.IH [of "j + 1" st] show ?thesis by simp
  next
    case (Inr items)
    obtain r rows' where p: "save_articles (clock j) items (table st) = (r, rows')"
      by (cases "save_articles (clock j) items (table st)")
    show ?thesis
    proof (cases r)
      case (Inl e)
      with Inr p Cons.IH [of "j + 1" "st\<lparr>table := rows'\<rparr>"] show ?thesis by simp
    next
      case n: (Inr n)
      with Inr p Cons.IH [of "j + 1" "st\<lparr>total_count := total_count st + n, table := rows'\<rparr>"]
      show ?thesis by simp
    qed
  qed
qed

lemma crawl_loop_total:
  "total_count (crawl_loop clock j ss st) =
     total_count st + sum_list (contributions clock j ss (table st))"
proof (induction ss arbitrary: j st)
  case Nil
  then show ?case by simp
next
  case (Cons a ss)
  show ?case
  proof (cases a)
    case (Inl e)
    with Cons.IH [of "j + 1" st] show ?thesis by simp
  next
    case (Inr items)
    obtain r rows' where p: "save_articles (clock j) items (table st) = (r, rows')"
      by (cases "save_articles (clock j) items (table st)")
    show ?thesis
    proof (cases r)
      case (Inl e)
      with Inr p Cons.IH [of "j + 1" "st\<lparr>table := rows'\<rparr>"] show ?thesis by simp
    next
      case n: (Inr n)
      with Inr p Cons.IH [of "j + 1" "st\<lparr>total_count := total_count st + n, table := rows'\<rparr>"]
      show ?thesis by simp
    qed
  qed
qed

lemma contributions_failed_as_empty:
  "contributions clock j (xs @ Inl e # ys) rows = contributions clock j (xs @ Inr [] # ys) rows"
proof (induction clock j xs rows rule: contributions.induct)
  case (1 clock j rows)
  then show ?case by (simp add: save_articles_Nil)
next
  case (2 clock j e ss rows)
  then show ?case by simp
next
  case (3 clock j items ss rows)
  then show ?case by (auto split: prod.splits sum.splits)
qed

lemma contributions_failed_zero:
  "contributions clock j (xs @ Inl e # ys) rows ! length xs = 0"
proof (induction clock j xs rows rule: contributions.induct)
  case (3 clock j items ss rows)
  then show ?case by (auto split: prod.splits sum.splits)
qed simp_all

text \<open>
  Claim C5, as the code has it.  A scraper call that raises is passed over without a log
  message: the pass ends with the same total, the same table and the same (unchanged) log
  as if that scraper had returned an empty list.  The total of a pass is the sum of the
  numbers of rows inserted for the scrapers, the failing one adding \<^verbatim>\<open>0\<close> and every other one
  adding what it adds when the failing one returns an empty list instead.
\<close>

theorem crawl_all_fault_isolation:
  "crawl_all clock (xs @ Inl e # ys) rows log = crawl_all clock (xs @ Inr [] # ys) rows log
   \<and> total_count (crawl_all clock ss rows log) = sum_list (contributions clock 0 ss rows)
   \<and> contributions clock 0 (xs @ Inl e # ys) rows = contributions clock 0 (xs @ Inr [] # ys) rows
   \<and> contributions clock 0 (xs @ Inl e # ys) rows ! length xs = 0
   \<and> logged (crawl_all clock ss rows log) = log"
proof (intro conjI)
  show "crawl_all clock (xs @ Inl e # ys) rows log = crawl_all clock (xs @ Inr [] # ys) rows log"
    unfolding crawl_all_def crawl_loop_append [of clock 0 xs]
    by (rule crawl_loop_failed_as_empty)
  show "total_count (crawl_all clock ss rows log) = sum_list (contributions clock 0 ss rows)"
    by (simp add: crawl_all_def crawl_loop_total)
  show "contributions clock 0 (xs @ Inl e # ys) rows = contributions clock 0 (xs @ Inr [] # ys) rows"
    by (rule contributions_failed_as_empty)
  show "contributions clock 0 (xs @ Inl e # ys) rows ! length xs = 0"
    by (rule contributions_failed_zero)
  show "logged (crawl_all clock ss rows log) = log"
    by (simp add: crawl_all_def crawl_loop_logged)
qed

text \<open>
  The claim as stated has the orchestrator log the fault.  Here the first scraper raises
  and the second returns one new item: the pass returns \<^verbatim>\<open>1\<close> and the log is as empty as
  before.
\<close>

theorem crawl_all_logs_counterexample:
  "crawl_all (\<lambda>j k. ''2024-01-02T08:00:00'')
     [Inl RequestError,
      Inr [[''title'' \<mapsto> PyStr ''Bupati resmikan jalan'', ''url'' \<mapsto> PyStr ''https://x/1'',
            ''source'' \<mapsto> PyStr ''s1'', ''published_at'' \<mapsto> PyStr ''2024-01-01T00:00:00'']]]
     [] []
   = \<lparr>total_count = 1,
      table = [\<lparr>title = ''Bupati resmikan jalan'', url = ''https://x/1'', source = ''s1'',
                published_at = ''2024-01-01T00:00:00'', created_at = ''2024-01-02T08:00:00'',
                category = ''Pemerintahan''\<rparr>],
      logged = []\<rparr>"
  by (simp add: crawl_all_def save_articles_single save_one_def categorize_arg_def
      categorize_bupati)

section \<open>Properties of \<^verbatim>\<open>normalize_datetime\<close>\<close>

lemma is_Exception_all: "is_Exception e"
  by (cases e) simp_all

lemma try_formats_all_fail:
  "\<forall>fmt \<in> set fmts. \<exists>e. strptime_call strptime x fmt = Inl e
   \<Longrightarrow> try_formats strptime utcnow x fmts = Inr utcnow"
  by (induction fmts) (auto simp: is_Exception_all)

lemma try_formats_first:
  assumes "i < length fmts"
    and "strptime_call strptime x (fmts ! i) = Inr d"
    and "\<forall>j < i. \<exists>e. strptime_call strptime x (fmts ! j) = Inl e"
  shows "try_formats strptime utcnow x fmts = Inr d"
  using assms
proof (induction fmts arbitrary: i)
  case Nil
  then show ?case by simp
next
  case (Cons fmt fmts)
  show ?case
  proof (cases i)
    case 0
    with Cons.prems show ?thesis by simp
  next
    case (Suc k)
    with Cons.prems(3) obtain e where e: "strptime_call strptime x fmt = Inl e" by fastforce
    have "try_formats strptime utcnow x fmts = Inr d"
    proof (rule Cons.IH [of k])
      show "k < length fmts" using Cons.prems(1) Suc by simp
      show "strptime_call strptime x (fmts ! k) = Inr d" using Cons.prems(2) Suc by simp
      show "\<forall>j < k. \<exists>e. strptime_call strptime x (fmts ! j) = Inl e"
      proof (intro allI impI)
        fix j assume "j < k"
        then have "Suc j < i" using Suc by simp
        with Cons.prems(3) have "\<exists>e. strptime_call strptime x ((fmt # fmts) ! Suc j) = Inl e"
          by blast
        then show "\<exists>e. strptime_call strptime x (fmts ! j) = Inl e" by simp
      qed
    qed
    with e show ?thesis by (simp add: is_Exception_all)
  qed
qed

lemma try_formats_returns: "\<exists>d. try_formats strptime utcnow x fmts = Inr d"
  by (induction fmts) (auto simp: is_Exception_all split: sum.splits)

text \<open>
  Claim C3.  \<^verbatim>\<open>normalize_datetime\<close> never raises.  It tries the five formats in the order
  offset-aware ISO, offset-naive ISO, long date, slash date, bare date, and the first
  format that \<^verbatim>\<open>strptime\<close> parses gives the result.  When \<^verbatim>\<open>strptime\<close> raises for every
  format, and when the input is \<^verbatim>\<open>None\<close>, the result is the reading of the clock taken by
  the call.
\<close>

theorem normalize_datetime_fallback:
  "candidates =
     [''%Y-%m-%dT%H:%M:%S%z'', ''%Y-%m-%dT%H:%M:%S'', ''%d %B %Y'', ''%d/%m/%Y'', ''%Y-%m-%d'']
   \<and> (\<exists>d. normalize_datetime strptime utcnow x = Inr d)
   \<and> normalize_datetime strptime utcnow PyNone = Inr utcnow
   \<and> ((\<forall>fmt \<in> set candidates. \<exists>e. strptime s fmt = Inl e)
        \<longrightarrow> normalize_datetime strptime utcnow (PyStr s) = Inr utcnow)
   \<and> (i < length candidates \<and> strptime s (candidates ! i) = Inr d
        \<and> (\<forall>j < i. \<exists>e. strptime s (candidates ! j) = Inl e)
        \<longrightarrow> normalize_datetime strptime utcnow (PyStr s) = Inr d)"
proof (intro conjI impI)
  show "candidates =
     [''%Y-%m-%dT%H:%M:%S%z'', ''%Y-%m-%dT%H:%M:%S'', ''%d %B %Y'', ''%d/%m/%Y'', ''%Y-%m-%d'']"
    by (simp add: candidates_def)
  show "\<exists>d. normalize_datetime strptime utcnow x = Inr d"
    unfolding normalize_datetime_def by (rule try_formats_returns)
  show "normalize_datetime strptime utcnow PyNone = Inr utcnow"
    unfolding normalize_datetime_def
    by (rule try_formats_all_fail) (simp add: strptime_call_def)
next
  assume "\<forall>fmt \<in> set candidates. \<exists>e. strptime s fmt = Inl e"
  then show "normalize_datetime strptime utcnow (PyStr s) = Inr utcnow"
    unfolding normalize_datetime_def
    by (intro try_formats_all_fail) (simp add: strptime_call_def)
next
  assume h: "i < length candidates \<and> strptime s (candidates ! i) = Inr d
        \<and> (\<forall>j < i. \<exists>e. strptime s (candidates ! j) = Inl e)"
  show "normalize_datetime strptime utcnow (PyStr s) = Inr d"
    unfolding normalize_datetime_def
  proof (rule try_formats_first [of i])
    show "i < length candidates" using h by simp
    show "strptime_call strptime (PyStr s) (candidates ! i) = Inr d"
      using h by (simp add: strptime_call_def)
    show "\<forall>j < i. \<exists>e. strptime_call strptime (PyStr s) (candidates ! j) = Inl e"
      using h by (simp add: strptime_call_def)
  qed
qed

theorem normalize_datetime_fallback_witness:
  "normalize_datetime
     (\<lambda>s fmt. if s = ''2024-01-05'' \<and> fmt = ''%Y-%m-%d''
               then Inr (2024 :: nat, 1 :: nat, 5 :: nat) else Inl ValueError)
     (2024, 1, 8) (PyStr ''kemarin sore'') = Inr (2024, 1, 8)
   \<and> normalize_datetime
     (\<lambda>s fmt. if s = ''2024-01-05'' \<and> fmt = ''%Y-%m-%d''
               then Inr (2024 :: nat, 1 :: nat, 5 :: nat) else Inl ValueError)
     (2024, 1, 8) (PyStr ''2024-01-05'') = Inr (2024, 1, 5)"
proof -
  let ?p = "\<lambda>s fmt. if s = ''2024-01-05'' \<and> fmt = ''%Y-%m-%d''
               then Inr (2024 :: nat, 1 :: nat, 5 :: nat) else (Inl ValueError :: error + _)"
  let ?now = "(2024 :: nat, 1 :: nat, 8 :: nat)"
  have h1: "\<forall>fmt \<in> set candidates. \<exists>e. ?p ''kemarin sore'' fmt = Inl e" by simp
  have h2: "4 < length candidates \<and> ?p ''2024-01-05'' (candidates ! 4) = Inr (2024, 1, 5)
        \<and> (\<forall>j < 4. \<exists>e. ?p ''2024-01-05'' (candidates ! j) = Inl e)"
  proof (intro conjI allI impI)
    show "4 < length candidates" by (simp add: candidates_def)
    show "?p ''2024-01-05'' (candidates ! 4) = Inr (2024, 1, 5)" by (simp add: candidates_def)
    fix j :: nat assume "j < 4"
    then have "j = 0 \<or> j = 1 \<or> j = 2 \<or> j = 3" by arith
    then show "\<exists>e. ?p ''2024-01-05'' (candidates ! j) = Inl e"
      by (auto simp: candidates_def)
  qed
  have a: "normalize_datetime ?p ?now (PyStr ''kemarin sore'') = Inr ?now"
    using normalize_datetime_fallback [of ?p ?now _ "''kemarin sore''", THEN conjunct2,
        THEN conjunct2, THEN conjunct2, THEN conjunct1, THEN mp, OF h1] .
  have b: "normalize_datetime ?p ?now (PyStr ''2024-01-05'') = Inr (2024, 1, 5)"
    using normalize_datetime_fallback [of ?p ?now _ "''2024-01-05''" 4 "(2024, 1, 5)",
        THEN conjunct2, THEN conjunct2, THEN conjunct2, THEN conjunct2, THEN mp, OF h2] .
  from a b show ?thesis by simp
qed


section \<open>Properties of \<^verbatim>\<open>parse_id_date\<close>\<close>

lemma rmatch_groups_grow:
  "(s', gs') \<in> set (rmatch r (s, gs)) \<Longrightarrow> prefix gs gs'"
proof (induction r arbitrary: s gs s' gs')
  case (Chr c)
  then show ?case by (auto split: list.splits if_splits)
next
  case (Str w)
  then show ?case by (auto split: if_splits)
next
  case (Seq a b)
  from Seq.prems obtain st where st: "st \<in> set (rmatch a (s, gs))"
    and m: "(s', gs') \<in> set (rmatch b st)" by auto
  obtain s1 g1 where p: "st = (s1, g1)" by (cases st)
  from Seq.IH(1) st p have "prefix gs g1" by blast
  moreover from Seq.IH(2) m p have "prefix g1 gs'" by blast
  ultimately show ?case by (rule prefix_order.trans)
next
  case (Alt a b)
  then show ?case by auto
next
  case (Grp a)
  from Grp.prems obtain g1 where "(s', g1) \<in> set (rmatch a (s, gs))"
    and e: "gs' = g1 @ [take (length s - length s') s]" by auto
  with Grp.IH have "prefix gs g1" by blast
  with e show ?case by simp
next
  case (Rep c lo hi)
  then show ?case by (auto simp: Let_def)
qed

lemma rmatch_first_group:
  assumes "(s', gs') \<in> set (rmatch (Grp (Seq (Chr c) (Rep e lo hi))) (s, gs))"
  shows "\<exists>w. gs' = gs @ [c # w]"
proof (cases s)
  case Nil
  with assms show ?thesis by simp
next
  case (Cons x t)
  show ?thesis
  proof (cases "x = c")
    case False
    with assms Cons show ?thesis by simp
  next
    case True
    from assms Cons True obtain k where "s' = drop k t"
      and g: "gs' = gs @ [take (length s - length s') s]"
      by (auto simp: Let_def)
    then have "0 < length s - length s'" using Cons by simp
    then obtain n where n: "length s - length s' = Suc n" by (cases "length s - length s'") auto
    show ?thesis unfolding g n using Cons True by simp
  qed
qed

lemma rmatch_Seq_elim:
  assumes "(s', gs') \<in> set (rmatch (Seq a b) st)"
  shows "\<exists>s1 g1. (s1, g1) \<in> set (rmatch a st) \<and> (s', gs') \<in> set (rmatch b (s1, g1))"
proof -
  from assms obtain st1 where a: "st1 \<in> set (rmatch a st)"
    and b: "(s', gs') \<in> set (rmatch b st1)"
    by auto
  obtain s1 g1 where p: "st1 = (s1, g1)" by (cases st1)
  from a b show ?thesis unfolding p by blast
qed

lemma id_date_pattern_first_group:
  assumes "(s', gs') \<in> set (rmatch id_date_pattern (s, []))"
  shows "\<exists>w rest. gs' = (backslash # w) # rest"
proof -
  from assms [unfolded id_date_pattern_def] rmatch_Seq_elim
  obtain s1 g1 r where
    st: "(s1, g1) \<in> set (rmatch (Grp (Seq (Chr backslash) (Rep (CHR ''d'') 1 (Some 2)))) (s, []))"
    and m: "(s', gs') \<in> set (rmatch r (s1, g1))"
    by blast
  from rmatch_first_group [OF st] obtain w where w: "g1 = [backslash # w]" by auto
  from rmatch_groups_grow [OF m] have "prefix g1 gs'" .
  with w show ?thesis by (auto simp: prefix_def)
qed

lemma re_search_Some:
  "re_search r s = Some gs \<Longrightarrow> \<exists>t s'. (s', gs) \<in> set (rmatch r (t, []))"
proof (induction s)
  case Nil
  show ?case
  proof (cases "rmatch r ([], [])")
    case Nil
    with Nil.prems show ?thesis by simp
  next
    case (Cons p ps)
    obtain s' g where "p = (s', g)" by (cases p)
    with Cons Nil.prems have "(s', gs) \<in> set (rmatch r ([], []))" by auto
    then show ?thesis by blast
  qed
next
  case (Cons c s)
  show ?case
  proof (cases "rmatch r (c # s, [])")
    case Nil
    with Cons show ?thesis by simp
  next
    case (Cons p ps)
    obtain s' g where "p = (s', g)" by (cases p)
    with Cons Cons.prems have "(s', gs) \<in> set (rmatch r (c # s, []))" by auto
    then show ?thesis by blast
  qed
qed

lemma dropWhile_snoc_keep:
  "\<not> P b \<Longrightarrow> \<exists>xs. dropWhile P (ys @ [b]) = xs @ [b]"
  by (induction ys) auto

lemma strip_backslash: "\<exists>w'. strip (backslash # w) = backslash # w'"
proof -
  have ns: "\<not> is_space backslash" by (simp add: is_space_def backslash_def)
  then have "dropWhile is_space (backslash # w) = backslash # w" by simp
  moreover from dropWhile_snoc_keep [of is_space backslash "rev w"] ns
  obtain xs where "dropWhile is_space (rev w @ [backslash]) = xs @ [backslash]" by blast
  ultimately show ?thesis by (simp add: strip_def)
qed

lemma py_int_backslash: "py_int (backslash # w) = Inl ValueError"
proof -
  obtain w' where w: "strip (backslash # w) = backslash # w'" using strip_backslash by blast
  show ?thesis unfolding py_int_def w
    by (simp add: backslash_def is_digit_def)
qed

text \<open>
  Claim C9.  The pattern of \<^verbatim>\<open>parse_id_date\<close> has doubled backslashes in a raw string, so its
  first group begins with a literal backslash.  The text \<^verbatim>\<open>25 Agustus 2025\<close> has no match
  and the function returns \<^verbatim>\<open>None\<close>; and for every argument the function either returns
  \<^verbatim>\<open>None\<close> or raises \<^verbatim>\<open>ValueError\<close> (from \<^verbatim>\<open>int\<close> on the first group), so it returns a date
  for no text at all.
\<close>

theorem parse_id_date_no_date:
  "parse_id_date (PyStr ''25 Agustus 2025'') = Inr PyNone
   \<and> (\<forall>tx. parse_id_date tx = Inr PyNone \<or> parse_id_date tx = Inl ValueError)"
proof (intro conjI allI)
  show "parse_id_date (PyStr ''25 Agustus 2025'') = Inr PyNone"
    by (simp add: parse_id_date_def id_date_pattern_def backslash_def)
next
  fix tx
  show "parse_id_date tx = Inr PyNone \<or> parse_id_date tx = Inl ValueError"
  proof (cases tx)
    case PyNone
    then show ?thesis by (simp add: parse_id_date_def)
  next
    case (PyStr s)
    show ?thesis
    proof (cases "re_search id_date_pattern s")
      case None
      with PyStr show ?thesis by (simp add: parse_id_date_def)
    next
      case (Some gs)
      from re_search_Some [OF Some] obtain t s' where
        "(s', gs) \<in> set (rmatch id_date_pattern (t, []))" by blast
      from id_date_pattern_first_group [OF this] obtain w rest where
        g: "gs = (backslash # w) # rest" by blast
      show ?thesis unfolding parse_id_date_def PyStr
        by (simp add: Some g py_int_backslash split: list.splits)
    qed
  qed
qed

lemma parse_id_date_literal_backslashes:
  "parse_id_date (PyStr ([backslash] @ ''d'' @ [backslash] @ ''sAgustus'' @ [backslash] @ ''s''
                          @ [backslash] @ ''dddd'')) = Inl ValueError"
  by (simp add: parse_id_date_def id_date_pattern_def month_names_def backslash_def
      py_int_def strip_def is_space_def is_digit_def Let_def)

section \<open>Properties of the scrapers\<close>

lemma detail_loop_failed_fetch:
  assumes "i < length as" and "href (as ! i) = PyStr h" and "h \<noteq> []"
    and "fetch (k + i) (absolute site h) = Inl e"
  shows "mk_item (PyStr (anchor_text (as ! i))) (PyStr (absolute site h)) src
           (PyStr (clock (k + i)))
         \<in> set (detail_loop site src fetch clock k as)"
  using assms
proof (induction as arbitrary: i k)
  case Nil
  then show ?case by simp
next
  case (Cons a as)
  show ?case
  proof (cases i)
    case 0
    with Cons.prems show ?thesis by (simp add: Let_def)
  next
    case (Suc j)
    have e: "k + i = (k + 1) + j" using Suc by simp
    have "mk_item (PyStr (anchor_text (as ! j))) (PyStr (absolute site h)) src
            (PyStr (clock ((k + 1) + j)))
          \<in> set (detail_loop site src fetch clock (k + 1) as)"
    proof (rule Cons.IH)
      show "j < length as" using Cons.prems(1) Suc by simp
      show "href (as ! j) = PyStr h" using Cons.prems(2) Suc by simp
      show "h \<noteq> []" by (rule Cons.prems(3))
      show "fetch (k + 1 + j) (absolute site h) = Inl e" using Cons.prems(4) e by simp
    qed
    then show ?thesis unfolding e using Suc
      by (cases "href a") (auto simp: Let_def)
  qed
qed

lemma mk_item_url [simp]: "mk_item t u s pub ''url'' = Some u"
  by (simp add: mk_item_def)

lemma jombangkab_loop_urls:
  assumes "jombangkab_loop fetch clock k us = Inr items" and "it \<in> set items"
  shows "\<exists>i < length us. it ''url'' = Some (PyStr (us ! i))
                          \<and> (\<exists>p. fetch (k + i) (us ! i) = Inr p)"
  using assms
proof (induction us arbitrary: k items)
  case Nil
  then show ?case by simp
next
  case (Cons u us)
  have step: "\<exists>i < length (u # us). it ''url'' = Some (PyStr ((u # us) ! i))
                          \<and> (\<exists>p. fetch (k + i) ((u # us) ! i) = Inr p)"
    if r: "jombangkab_loop fetch clock (k + 1) us = Inr items'" and m: "it \<in> set items'"
    for items'
  proof -
    from Cons.IH [OF r m] obtain j where j: "j < length us"
      "it ''url'' = Some (PyStr (us ! j))" "\<exists>p. fetch (k + 1 + j) (us ! j) = Inr p"
      by blast
    have "k + 1 + j = k + Suc j" by simp
    with j have "Suc j < length (u # us) \<and> it ''url'' = Some (PyStr ((u # us) ! Suc j))
                 \<and> (\<exists>p. fetch (k + Suc j) ((u # us) ! Suc j) = Inr p)"
      by simp
    then show ?thesis by blast
  qed
  show ?case
  proof (cases "fetch k u")
    case (Inl e)
    with Cons.prems have "jombangkab_loop fetch clock (k + 1) us = Inr items" by simp
    from step [OF this Cons.prems(2)] show ?thesis .
  next
    case (Inr art)
    from Cons.prems(1) Inr obtain p where p: "parse_id_date (PyStr (body_text art)) = Inr p"
      by (cases "parse_id_date (PyStr (body_text art))") simp_all
    from Cons.prems(1) Inr p obtain items' where
      r: "jombangkab_loop fetch clock (k + 1) us = Inr items'"
      by (cases "jombangkab_loop fetch clock (k + 1) us") (simp_all add: Let_def)
    let ?t = "case heading art of None \<Rightarrow> PyNone | Some h \<Rightarrow> PyStr h"
    let ?pub = "if \<not> truthy p then PyStr (clock k) else p"
    from Cons.prems(1) Inr p r have items:
      "items = (if truthy ?t \<and> u \<noteq> []
                then mk_item ?t (PyStr u) ''jombangkab.go.id'' ?pub # items' else items')"
      by (simp add: Let_def)
    show ?thesis
    proof (cases "it \<in> set items'")
      case True
      from step [OF r True] show ?thesis .
    next
      case False
      with Cons.prems(2) items have "it = mk_item ?t (PyStr u) ''jombangkab.go.id'' ?pub"
        by (auto split: if_splits)
      then have "it ''url'' = Some (PyStr u)" by simp
      with Inr have "0 < length (u # us) \<and> it ''url'' = Some (PyStr ((u # us) ! 0))
                 \<and> (\<exists>p. fetch (k + 0) ((u # us) ! 0) = Inr p)" by simp
      then show ?thesis by blast
    qed
  qed
qed

lemma dedupe_fresh: "set (dedupe seen us) \<inter> seen = {}"
  by (induction us arbitrary: seen) auto

lemma dedupe_distinct: "distinct (dedupe seen us)"
proof (induction us arbitrary: seen)
  case Nil
  then show ?case by simp
next
  case (Cons u us)
  from dedupe_fresh [of "insert u seen" us] have "u \<notin> set (dedupe (insert u seen) us)" by auto
  with Cons show ?case by simp
qed

lemma jombangkab_links_distinct: "distinct (jombangkab_links soup limit)"
  unfolding jombangkab_links_def by (rule distinct_take) (rule dedupe_distinct)

lemma jombangkab_failed_fetch_omitted:
  assumes "distinct us" and "i < length us" and "fetch (k + i) (us ! i) = Inl e"
    and "jombangkab_loop fetch clock k us = Inr items"
  shows "\<forall>it \<in> set items. it ''url'' \<noteq> Some (PyStr (us ! i))"
proof
  fix it assume m: "it \<in> set items"
  show "it ''url'' \<noteq> Some (PyStr (us ! i))"
  proof
    assume eq: "it ''url'' = Some (PyStr (us ! i))"
    from jombangkab_loop_urls [OF assms(4) m] obtain j where j: "j < length us"
      "it ''url'' = Some (PyStr (us ! j))" "\<exists>p. fetch (k + j) (us ! j) = Inr p" by blast
    from eq j(2) have "us ! i = us ! j" by simp
    with assms(1,2) j(1) have "i = j" by (simp add: nth_eq_iff_index_eq)
    with j(3) assms(3) show False by simp
  qed
qed


text \<open>
  Claim C7, as the code has it.  In \<^verbatim>\<open>scraper_detik\<close>, \<^verbatim>\<open>scraper_tribunjatim\<close> and
  \<^verbatim>\<open>scraper_wartajombang\<close> a candidate whose request fails is still in the returned list: for
  the anchor at position \<^verbatim>\<open>i\<close> among the first \<^verbatim>\<open>limit\<close> selected anchors, with a non-empty
  \<^verbatim>\<open>href\<close>, the list holds the item with the anchor's text as title, the absolute url, the
  source name, and the reading of the clock taken for that anchor as \<^verbatim>\<open>published_at\<close>.  In
  \<^verbatim>\<open>scraper_jombangkab\<close> a link whose request fails is left out: when the scraper returns, no
  item of its list has the url of that link.
\<close>

theorem secondary_fetch_failure:
  "(i < length (take limit (selected soup))
      \<and> href (take limit (selected soup) ! i) = PyStr h \<and> h \<noteq> []
      \<longrightarrow> ((\<exists>e. fetch i (absolute ''https://www.detik.com'' h) = Inl e)
             \<longrightarrow> mk_item (PyStr (anchor_text (take limit (selected soup) ! i)))
                   (PyStr (absolute ''https://www.detik.com'' h)) ''detik.com'' (PyStr (clock i))
                 \<in> set (scraper_detik (Inr soup) fetch clock limit))
         \<and> ((\<exists>e. fetch i (absolute ''https://jatim.tribunnews.com'' h) = Inl e)
             \<longrightarrow> mk_item (PyStr (anchor_text (take limit (selected soup) ! i)))
                   (PyStr (absolute ''https://jatim.tribunnews.com'' h)) ''tribunjatim''
                   (PyStr (clock i))
                 \<in> set (scraper_tribunjatim (Inr soup) fetch clock limit))
         \<and> ((\<exists>e. fetch i (absolute ''https://wartajombang.com'' h) = Inl e)
             \<longrightarrow> mk_item (PyStr (anchor_text (take limit (selected soup) ! i)))
                   (PyStr (absolute ''https://wartajombang.com'' h)) ''wartajombang''
                   (PyStr (clock i))
                 \<in> set (scraper_wartajombang (Inr soup) fetch clock limit)))
   \<and> (i < length (jombangkab_links soup limit)
        \<and> (\<exists>e. fetch i (jombangkab_links soup limit ! i) = Inl e)
        \<and> scraper_jombangkab (Inr soup) fetch clock limit = Inr items
      \<longrightarrow> Some (PyStr (jombangkab_links soup limit ! i)) \<notin> (\<lambda>it. it ''url'') ` set items)"
proof (intro conjI impI)
  let ?as = "take limit (selected soup)"
  assume h: "i < length ?as \<and> href (?as ! i) = PyStr h \<and> h \<noteq> []"
  have loop: "mk_item (PyStr (anchor_text (?as ! i))) (PyStr (absolute site h)) src
                (PyStr (clock i)) \<in> set (detail_loop site src fetch clock 0 ?as)"
    if "\<exists>e. fetch i (absolute site h) = Inl e" for site src
  proof -
    from that obtain e where e: "fetch (0 + i) (absolute site h) = Inl e" by auto
    from h have h1: "i < length ?as" and h2: "href (?as ! i) = PyStr h" and h3: "h \<noteq> []"
      by blast+
    from detail_loop_failed_fetch
      [where i = i and as = "?as" and h = h and fetch = fetch and k = 0 and site = site
         and e = e and src = src and clock = clock, OF h1 h2 h3 e]
    show ?thesis by (simp only: add.left_neutral)
  qed
  {
    assume "\<exists>e. fetch i (absolute ''https://www.detik.com'' h) = Inl e"
    from loop [OF this]
    show "mk_item (PyStr (anchor_text (?as ! i)))
            (PyStr (absolute ''https://www.detik.com'' h)) ''detik.com'' (PyStr (clock i))
          \<in> set (scraper_detik (Inr soup) fetch clock limit)"
      by (simp add: scraper_detik_def)
  }
  {
    assume "\<exists>e. fetch i (absolute ''https://jatim.tribunnews.com'' h) = Inl e"
    from loop [OF this]
    show "mk_item (PyStr (anchor_text (?as ! i)))
            (PyStr (absolute ''https://jatim.tribunnews.com'' h)) ''tribunjatim''
            (PyStr (clock i))
          \<in> set (scraper_tribunjatim (Inr soup) fetch clock limit)"
      by (simp add: scraper_tribunjatim_def)
  }
  {
    assume "\<exists>e. fetch i (absolute ''https://wartajombang.com'' h) = Inl e"
    from loop [OF this]
    show "mk_item (PyStr (anchor_text (?as ! i)))
            (PyStr (absolute ''https://wartajombang.com'' h)) ''wartajombang''
            (PyStr (clock i))
          \<in> set (scraper_wartajombang (Inr soup) fetch clock limit)"
      by (simp add: scraper_wartajombang_def)
  }
next
  let ?us = "jombangkab_links soup limit"
  assume h: "i < length ?us \<and> (\<exists>e. fetch i (?us ! i) = Inl e)
        \<and> scraper_jombangkab (Inr soup) fetch clock limit = Inr items"
  then obtain e where e: "fetch (0 + i) (?us ! i) = Inl e" by auto
  from h have r: "jombangkab_loop fetch clock 0 ?us = Inr items"
    by (simp add: scraper_jombangkab_def)
  from h have i: "i < length ?us" by simp
  from jombangkab_failed_fetch_omitted [OF jombangkab_links_distinct i e r]
  show "Some (PyStr (?us ! i)) \<notin> (\<lambda>it. it ''url'') ` set items" by auto
qed

lemma parse_id_date_pasar_murah:
  "parse_id_date (PyStr ''Pasar murah 25 Agustus 2025'') = Inr PyNone"
  by (simp add: parse_id_date_def id_date_pattern_def backslash_def)

lemma jombangkab_links_two:
  "jombangkab_links
     \<lparr>selected = [\<lparr>href = PyStr ''/berita/umum/jalan-baru-123'', anchor_text = ''Jalan baru''\<rparr>,
                  \<lparr>href = PyStr ''/berita/umum/pasar-murah-124'', anchor_text = ''Pasar murah''\<rparr>],
      time_tag = None, heading = None, body_text = []\<rparr> 20
   = [''https://www.jombangkab.go.id/berita/umum/jalan-baru-123'',
      ''https://www.jombangkab.go.id/berita/umum/pasar-murah-124'']"
  by (simp add: jombangkab_links_def jombangkab_href_def List.map_filter_simps Let_def)

theorem secondary_fetch_failure_witness:
  "mk_item (PyStr ''Jalan baru'') (PyStr ''https://www.detik.com/berita/umum/jalan-baru-123'')
     ''detik.com'' (PyStr ''2024-01-02T08:00:00'')
   \<in> set (scraper_detik
       (Inr \<lparr>selected = [\<lparr>href = PyStr ''/berita/umum/jalan-baru-123'', anchor_text = ''Jalan baru''\<rparr>,
                  \<lparr>href = PyStr ''/berita/umum/pasar-murah-124'', anchor_text = ''Pasar murah''\<rparr>],
             time_tag = None, heading = None, body_text = []\<rparr>)
       (\<lambda>i u. if i = 1
               then Inr \<lparr>selected = [], time_tag = None, heading = Some ''Pasar murah'',
                         body_text = ''Pasar murah 25 Agustus 2025''\<rparr>
               else Inl RequestError)
       (\<lambda>i. ''2024-01-02T08:00:00'') 20)
   \<and> Some (PyStr ''https://www.jombangkab.go.id/berita/umum/jalan-baru-123'')
     \<notin> (\<lambda>it. it ''url'') `
       set [mk_item (PyStr ''Pasar murah'')
              (PyStr ''https://www.jombangkab.go.id/berita/umum/pasar-murah-124'')
              ''jombangkab.go.id'' (PyStr ''2024-01-02T08:00:00'')]"
proof -
  let ?soup = "\<lparr>selected = [\<lparr>href = PyStr ''/berita/umum/jalan-baru-123'', anchor_text = ''Jalan baru''\<rparr>,
                  \<lparr>href = PyStr ''/berita/umum/pasar-murah-124'', anchor_text = ''Pasar murah''\<rparr>],
             time_tag = None, heading = None, body_text = []\<rparr>"
  let ?fetch = "\<lambda>(i::nat) (u::string). if i = 1
               then Inr \<lparr>selected = [], time_tag = None, heading = Some ''Pasar murah'',
                         body_text = ''Pasar murah 25 Agustus 2025''\<rparr>
               else Inl RequestError"
  let ?clock = "\<lambda>i::nat. ''2024-01-02T08:00:00''"
  let ?items = "[mk_item (PyStr ''Pasar murah'')
              (PyStr ''https://www.jombangkab.go.id/berita/umum/pasar-murah-124'')
              ''jombangkab.go.id'' (PyStr ''2024-01-02T08:00:00'')]"
  have h1: "0 < length (take 20 (selected ?soup))
      \<and> href (take 20 (selected ?soup) ! 0) = PyStr ''/berita/umum/jalan-baru-123''
      \<and> ''/berita/umum/jalan-baru-123'' \<noteq> []"
    by simp
  have f1: "\<exists>e. ?fetch 0 (absolute ''https://www.detik.com'' ''/berita/umum/jalan-baru-123'') = Inl e"
    by simp
  have A: "mk_item (PyStr (anchor_text (take 20 (selected ?soup) ! 0)))
             (PyStr (absolute ''https://www.detik.com'' ''/berita/umum/jalan-baru-123''))
             ''detik.com'' (PyStr (?clock 0))
           \<in> set (scraper_detik (Inr ?soup) ?fetch ?clock 20)"
    using secondary_fetch_failure [where i = 0 and limit = 20 and soup = ?soup
        and h = "''/berita/umum/jalan-baru-123''" and fetch = ?fetch and clock = ?clock,
        THEN conjunct1, THEN mp, OF h1, THEN conjunct1, THEN mp, OF f1] .
  have run: "scraper_jombangkab (Inr ?soup) ?fetch ?clock 20 = Inr ?items"
    by (simp add: scraper_jombangkab_def jombangkab_links_two parse_id_date_pasar_murah Let_def)
  have h2: "0 < length (jombangkab_links ?soup 20)
        \<and> (\<exists>e. ?fetch 0 (jombangkab_links ?soup 20 ! 0) = Inl e)
        \<and> scraper_jombangkab (Inr ?soup) ?fetch ?clock 20 = Inr ?items"
    unfolding run by (simp add: jombangkab_links_two)
  have B: "Some (PyStr (jombangkab_links ?soup 20 ! 0)) \<notin> (\<lambda>it. it ''url'') ` set ?items"
    using secondary_fetch_failure [where i = 0 and limit = 20 and soup = ?soup
        and fetch = ?fetch and clock = ?clock and items = ?items,
        THEN conjunct2, THEN mp, OF h2] .
  have a: "absolute ''https://www.detik.com'' ''/berita/umum/jalan-baru-123''
           = ''https://www.detik.com/berita/umum/jalan-baru-123''"
    by (simp add: absolute_def)
  from A have A': "mk_item (PyStr ''Jalan baru'')
       (PyStr ''https://www.detik.com/berita/umum/jalan-baru-123'')
       ''detik.com'' (PyStr ''2024-01-02T08:00:00'')
     \<in> set (scraper_detik (Inr ?soup) ?fetch ?clock 20)"
    unfolding a by simp
  from B have B': "Some (PyStr ''https://www.jombangkab.go.id/berita/umum/jalan-baru-123'')
     \<notin> (\<lambda>it. it ''url'') ` set ?items"
    unfolding jombangkab_links_two by simp
  from A' B' show ?thesis by (rule conjI)
qed

text \<open>
  Claim C7 as stated fails for \<^verbatim>\<open>scraper_jombangkab\<close>: the listing has one candidate link, the
  request for it fails, and the scraper returns the empty list.
\<close>

theorem scraper_jombangkab_omits_counterexample:
  "jombangkab_links
     \<lparr>selected = [\<lparr>href = PyStr ''/berita/umum/jalan-baru-123'', anchor_text = ''Jalan baru''\<rparr>],
      time_tag = None, heading = None, body_text = []\<rparr> 20
   = [''https://www.jombangkab.go.id/berita/umum/jalan-baru-123'']
   \<and> scraper_jombangkab
     (Inr \<lparr>selected = [\<lparr>href = PyStr ''/berita/umum/jalan-baru-123'', anchor_text = ''Jalan baru''\<rparr>],
           time_tag = None, heading = None, body_text = []\<rparr>)
     (\<lambda>i u. Inl RequestError) (\<lambda>i. ''2024-01-02T08:00:00'') 20
   = Inr []"
  by (simp add: scraper_jombangkab_def jombangkab_links_def jombangkab_href_def
      List.map_filter_simps Let_def)

section \<open>Properties of the calendar\<close>

lemma days_in_month_bounds: "28 \<le> days_in_month y m \<and> days_in_month y m \<le> 31"
  by (simp add: days_in_month_def)

lemma valid_next_day:
  assumes "valid_date d" and "d \<noteq> (9999, 12, 31)"
  shows "valid_date (next_day d)"
proof -
  obtain y m dd where d: "d = (y, m, dd)" by (cases d)
  from days_in_month_bounds [of y "m + 1"] have b: "1 \<le> days_in_month y (m + 1)" by simp
  have e: "days_in_month y 12 = 31" by (simp add: days_in_month_def)
  from days_in_month_bounds [of 1 1] have "1 \<le> days_in_month (y + 1) 1"
    by (simp add: days_in_month_def)
  with assms b e show ?thesis unfolding d
    by (auto simp: valid_date_def next_day_def)
qed

lemma valid_prev_day:
  assumes "valid_date d" and "d \<noteq> (1, 1, 1)"
  shows "valid_date (prev_day d)"
proof -
  obtain y m dd where d: "d = (y, m, dd)" by (cases d)
  from days_in_month_bounds [of y "m - 1"] have b: "1 \<le> days_in_month y (m - 1)" by simp
  have e: "days_in_month (y - 1) 12 = 31" by (simp add: days_in_month_def)
  from assms b e show ?thesis unfolding d
    by (auto simp: valid_date_def prev_day_def)
qed

lemma next_prev_day:
  assumes "valid_date d" and "d \<noteq> (1, 1, 1)"
  shows "next_day (prev_day d) = d \<and> prev_day d \<noteq> (9999, 12, 31)"
proof -
  obtain y m dd where d: "d = (y, m, dd)" by (cases d)
  have e: "days_in_month (y - 1) 12 = 31" by (simp add: days_in_month_def)
  from days_in_month_bounds [of y m] have b: "days_in_month y m \<le> 31" by simp
  from assms e b show ?thesis unfolding d
    by (auto simp: valid_date_def prev_day_def next_day_def)
qed

lemma next_day_key:
  assumes "valid_date d"
  shows "date_key d < date_key (next_day d)"
proof -
  obtain y m dd where d: "d = (y, m, dd)" by (cases d)
  from days_in_month_bounds [of y m] have b: "days_in_month y m \<le> 31" by simp
  from assms b show ?thesis unfolding d
    by (auto simp: valid_date_def next_day_def date_key_def)
qed

lemma date_add_valid_key:
  "valid_date d \<Longrightarrow> date_add d n = Inr x \<Longrightarrow> valid_date x \<and> date_key d + n \<le> date_key x"
proof (induction n arbitrary: d)
  case 0
  then show ?case by simp
next
  case (Suc n)
  from Suc.prems(2) have ne: "d \<noteq> (9999, 12, 31)" and r: "date_add (next_day d) n = Inr x"
    by (auto split: if_splits)
  from Suc.IH [OF valid_next_day [OF Suc.prems(1) ne] r] next_day_key [OF Suc.prems(1)]
  show ?case by simp
qed

lemma date_add_add:
  "date_add d (i + j) = (case date_add d i of Inl e \<Rightarrow> Inl e | Inr x \<Rightarrow> date_add x j)"
  by (induction i arbitrary: d) simp_all

lemma date_add_le:
  assumes "date_add d n = Inr x" and "i \<le> n"
  shows "\<exists>z. date_add d i = Inr z \<and> date_add z (n - i) = Inr x"
proof -
  from assms(2) have "n = i + (n - i)" by simp
  with assms(1) have "date_add d (i + (n - i)) = Inr x" by simp
  then show ?thesis unfolding date_add_add by (cases "date_add d i") simp_all
qed

lemma date_sub_add:
  "valid_date d \<Longrightarrow> date_sub d n = Inr s \<Longrightarrow> date_add s n = Inr d \<and> valid_date s"
proof (induction n arbitrary: d)
  case 0
  then show ?case by simp
next
  case (Suc n)
  from Suc.prems(2) have ne: "d \<noteq> (1, 1, 1)" and r: "date_sub (prev_day d) n = Inr s"
    by (auto split: if_splits)
  from Suc.IH [OF valid_prev_day [OF Suc.prems(1) ne] r]
  have a: "date_add s n = Inr (prev_day d)" and v: "valid_date s" by simp_all
  from next_prev_day [OF Suc.prems(1) ne]
  have "date_add (prev_day d) 1 = Inr d" by simp
  with a have "date_add s (n + 1) = Inr d" unfolding date_add_add by simp
  with v show ?case by simp
qed

lemma date_add_strict:
  assumes "valid_date d" and "date_add d n = Inr x" and "i < j" and "j \<le> n"
  shows "date_key (projr (date_add d i)) < date_key (projr (date_add d j))"
proof -
  from date_add_le [OF assms(2,4)] obtain zj where zj: "date_add d j = Inr zj" by blast
  from assms(3) have "i \<le> j" by simp
  from date_add_le [OF zj this] obtain zi where zi: "date_add d i = Inr zi"
    and r: "date_add zi (j - i) = Inr zj" by blast
  from date_add_valid_key [OF assms(1) zi] have "valid_date zi" by simp
  from date_add_valid_key [OF this r] have "date_key zi + (j - i) \<le> date_key zj" by blast
  with assms(3) have "date_key zi < date_key zj" by arith
  with zi zj show ?thesis by simp
qed

lemma digit_char_eq: "digit_char a = digit_char b \<longleftrightarrow> a mod 10 = b mod 10"
proof -
  have d: "distinct ''0123456789''" by simp
  have "a mod 10 < length ''0123456789''" "b mod 10 < length ''0123456789''" by simp_all
  with d show ?thesis unfolding digit_char_def by (simp only: nth_eq_iff_index_eq)
qed

lemma div_mod_10_eq: "(a::nat) div 10 = b div 10 \<Longrightarrow> a mod 10 = b mod 10 \<Longrightarrow> a = b"
  by (metis div_mult_mod_eq)

lemma pad2_inj:
  assumes "n < 100" and "m < 100" and "pad2 n = pad2 m"
  shows "n = m"
proof -
  from assms(3) have a: "(n div 10) mod 10 = (m div 10) mod 10" and b: "n mod 10 = m mod 10"
    by (simp_all add: pad2_def digit_char_eq)
  from assms(1,2) have "n div 10 < 10" "m div 10 < 10" by simp_all
  with a have "n div 10 = m div 10" by simp
  from this b show ?thesis by (rule div_mod_10_eq)
qed

lemma pad4_inj:
  assumes "n < 10000" and "m < 10000" and "pad4 n = pad4 m"
  shows "n = m"
proof -
  from assms(3) have a: "(n div 1000) mod 10 = (m div 1000) mod 10"
    and b: "(n div 100) mod 10 = (m div 100) mod 10"
    and c: "(n div 10) mod 10 = (m div 10) mod 10"
    and d: "n mod 10 = m mod 10"
    by (simp_all add: pad4_def digit_char_eq)
  have e1: "k div 1000 = k div 100 div 10" for k :: nat by (simp add: div_mult2_eq [symmetric])
  have e2: "k div 100 = k div 10 div 10" for k :: nat by (simp add: div_mult2_eq [symmetric])
  from assms(1,2) have "n div 1000 < 10" "m div 1000 < 10" by simp_all
  with a have "n div 1000 = m div 1000" by simp
  then have "n div 100 div 10 = m div 100 div 10" by (simp only: e1)
  from this b have "n div 100 = m div 100" by (rule div_mod_10_eq)
  then have "n div 10 div 10 = m div 10 div 10" by (simp only: e2)
  from this c have "n div 10 = m div 10" by (rule div_mod_10_eq)
  from this d show ?thesis by (rule div_mod_10_eq)
qed

lemma date_iso_inj:
  assumes "valid_date a" and "valid_date b" and "date_iso a = date_iso b"
  shows "a = b"
proof -
  obtain y m d where a: "a = (y, m, d)" by (cases a)
  obtain y' m' d' where b: "b = (y', m', d')" by (cases b)
  from days_in_month_bounds [of y m] days_in_month_bounds [of y' m'] assms(1,2)
  have bnd: "y < 10000" "y' < 10000" "m < 100" "m' < 100" "d < 100" "d' < 100"
    unfolding a b by (auto simp: valid_date_def)
  have l4: "length (pad4 y) = length (pad4 y')" by (simp add: pad4_def)
  have l2: "length (pad2 m) = length (pad2 m')" by (simp add: pad2_def)
  from assms(3) have "pad4 y @ ''-'' @ pad2 m @ ''-'' @ pad2 d
                      = pad4 y' @ ''-'' @ pad2 m' @ ''-'' @ pad2 d'"
    unfolding a b by (simp add: date_iso_def)
  with l4 l2 have "pad4 y = pad4 y'" "pad2 m = pad2 m'" "pad2 d = pad2 d'" by simp_all
  with bnd pad4_inj pad2_inj show ?thesis unfolding a b by blast
qed

section \<open>Properties of \<^verbatim>\<open>api_trend\<close>\<close>

lemma day_iter_map:
  "\<forall>i \<in> set js. \<exists>x. date_add d i = Inr x
   \<Longrightarrow> day_iter d js = Inr (map (\<lambda>i. projr (date_add d i)) js)"
  by (induction js) auto

lemma map_of_map_key:
  "map_of (map (\<lambda>d. (d, f d)) ks) k = (if k \<in> set ks then Some (f k) else None)"
  by (induction ks) auto

lemma map_of_trend_query:
  "(case map_of (trend_query dt rows s) k of None \<Rightarrow> 0 | Some c \<Rightarrow> c)
   = length (filter (\<lambda>r. where_since dt s r \<and> day_key r = k) rows)"
proof -
  let ?sel = "filter (where_since dt s) rows"
  let ?f = "\<lambda>d. length (filter (\<lambda>r. day_key r = d) ?sel)"
  let ?ks = "sort (remdups (map day_key ?sel))"
  have m: "map_of (map (\<lambda>d. (d, ?f d)) ?ks) k = (if k \<in> set ?ks then Some (?f k) else None)"
    by (rule map_of_map_key)
  have e: "?f k = length (filter (\<lambda>r. where_since dt s r \<and> day_key r = k) rows)"
    by (simp add: conj_commute)
  show ?thesis
  proof (cases "k \<in> set ?ks")
    case True
    with m e show ?thesis by (simp add: trend_query_def Let_def)
  next
    case False
    then have "\<forall>r \<in> set ?sel. day_key r \<noteq> k" by auto
    then have "filter (\<lambda>r. day_key r = k) ?sel = []" by (simp add: filter_empty_conv)
    then have "?f k = 0" by simp
    with m e False show ?thesis by (simp add: trend_query_def Let_def)
  qed
qed

lemma length_filter_disj:
  "\<forall>r \<in> set xs. \<not> (Q r \<and> R r)
   \<Longrightarrow> length (filter (\<lambda>r. Q r \<or> R r) xs) = length (filter Q xs) + length (filter R xs)"
  by (induction xs) auto

lemma sum_counts_distinct:
  "distinct ks \<Longrightarrow>
   sum_list (map (\<lambda>k. length (filter (\<lambda>r. P r \<and> f r = k) xs)) ks)
   = length (filter (\<lambda>r. P r \<and> f r \<in> set ks) xs)"
proof (induction ks)
  case Nil
  then show ?case by simp
next
  case (Cons k ks)
  have "length (filter (\<lambda>r. (P r \<and> f r = k) \<or> (P r \<and> f r \<in> set ks)) xs)
        = length (filter (\<lambda>r. P r \<and> f r = k) xs) + length (filter (\<lambda>r. P r \<and> f r \<in> set ks) xs)"
    using Cons.prems by (intro length_filter_disj) auto
  moreover have "(\<lambda>r. P r \<and> f r \<in> set (k # ks))
                 = (\<lambda>r. (P r \<and> f r = k) \<or> (P r \<and> f r \<in> set ks))"
    by auto
  ultimately show ?case using Cons by simp
qed

lemma since_of_nonneg:
  assumes "valid_date (date_of now)" and "0 \<le> days" and "since_of now days = Inr since"
  shows "date_add (date_of since) (nat days) = Inr (date_of now)
         \<and> valid_date (date_of since)
         \<and> isoformat since = date_iso (date_of since) @ drop 10 (isoformat now)"
proof -
  from assms(3) obtain d where s: "shift_date (date_of now) (- days) = Inr d"
    and e: "since = now\<lparr>date_of := d\<rparr>"
    by (auto simp: since_of_def split: if_splits sum.splits)
  have sub: "date_sub (date_of now) (nat days) = Inr d"
  proof (cases "days = 0")
    case True
    with s show ?thesis by (simp add: shift_date_def)
  next
    case False
    with assms(2) s show ?thesis by (simp add: shift_date_def)
  qed
  from date_sub_add [OF assms(1) sub] have "date_add d (nat days) = Inr (date_of now)"
    and "valid_date d" by simp_all
  moreover have "length (date_iso x) = 10" for x
    by (cases x) (simp add: date_iso_def pad4_def pad2_def)
  ultimately show ?thesis unfolding e by (simp add: isoformat_def)
qed


text \<open>
  Claim C6, as the code has it.  The window is a look-back of \<^verbatim>\<open>days\<close> days that ends today;
  there is no \<^verbatim>\<open>until\<close>.  Let the date of \<^verbatim>\<open>now\<close> be a date of the calendar, let the request
  give \<^verbatim>\<open>days \<ge> 0\<close>, and let \<^verbatim>\<open>since = now - days\<close> exist.  Then \<^verbatim>\<open>api_trend\<close> returns, with one
  label for each of the \<^verbatim>\<open>days + 1\<close> consecutive calendar days from the date of \<^verbatim>\<open>since\<close> to
  the date of \<^verbatim>\<open>now\<close>, no label twice; the count of a day (zero when there is none) is the
  number of rows that pass \<^verbatim>\<open>datetime(published_at) >= datetime(since)\<close> and whose first ten
  characters are the label; and the counts sum to the number of rows that pass that test
  and whose first ten characters are one of the labels.
\<close>

theorem api_trend_daily_counts:
  assumes "valid_date (date_of now)" and "days_arg arg = Inr days" and "0 \<le> days"
    and "since_of now days = Inr since"
  shows "\<exists>labels counts.
           api_trend dt now arg rows = Inr (labels, counts)
         \<and> labels = map (\<lambda>i. date_iso (projr (date_add (date_of since) i))) [0 ..< nat days + 1]
         \<and> (\<forall>i \<le> nat days. \<exists>d. date_add (date_of since) i = Inr d \<and> valid_date d)
         \<and> date_add (date_of since) (nat days) = Inr (date_of now)
         \<and> distinct labels
         \<and> length labels = nat days + 1
         \<and> counts = map (\<lambda>l. length (filter (\<lambda>r. where_since dt (isoformat since) r
                                                  \<and> day_key r = l) rows)) labels
         \<and> sum_list counts
             = length (filter (\<lambda>r. where_since dt (isoformat since) r
                                   \<and> day_key r \<in> set labels) rows)"
proof -
  let ?s = "date_of since"
  let ?n = "nat days"
  let ?g = "\<lambda>i. projr (date_add ?s i)"
  let ?labels = "map (\<lambda>i. date_iso (?g i)) [0 ..< ?n + 1]"
  let ?cnt = "\<lambda>l. length (filter (\<lambda>r. where_since dt (isoformat since) r \<and> day_key r = l) rows)"
  from since_of_nonneg [OF assms(1,3,4)]
  have last: "date_add ?s ?n = Inr (date_of now)" and vs: "valid_date ?s" by simp_all
  have each: "\<exists>d. date_add ?s i = Inr d \<and> valid_date d" if "i \<le> ?n" for i
  proof -
    from date_add_le [OF last that] obtain z where z: "date_add ?s i = Inr z" by blast
    from date_add_valid_key [OF vs z] z show ?thesis by blast
  qed
  have n1: "nat (days + 1) = ?n + 1" using assms(3) by simp
  have "\<forall>i \<in> set [0 ..< ?n + 1]. \<exists>x. date_add ?s i = Inr x"
  proof
    fix i assume "i \<in> set [0 ..< ?n + 1]"
    then have "i \<le> ?n" by auto
    from each [OF this] show "\<exists>x. date_add ?s i = Inr x" by blast
  qed
  from day_iter_map [OF this]
  have iter: "day_iter ?s [0 ..< nat (days + 1)] = Inr (map ?g [0 ..< ?n + 1])"
    unfolding n1 .
  have run: "api_trend dt now arg rows = Inr (?labels, map ?cnt ?labels)"
    unfolding api_trend_def
    by (simp add: assms(2) assms(4) iter Let_def map_of_trend_query comp_def del: upt_Suc)
  have inj: "inj_on (\<lambda>i. date_iso (?g i)) (set [0 ..< ?n + 1])"
  proof (rule inj_onI)
    fix i j
    assume i: "i \<in> set [0 ..< ?n + 1]" and j: "j \<in> set [0 ..< ?n + 1]"
      and e: "date_iso (?g i) = date_iso (?g j)"
    from i j have i': "i \<le> ?n" and j': "j \<le> ?n" by auto
    from each [OF i'] each [OF j'] have "valid_date (?g i)" "valid_date (?g j)" by auto
    from date_iso_inj [OF this e] have k: "date_key (?g i) = date_key (?g j)" by simp
    show "i = j"
    proof (rule ccontr)
      assume "i \<noteq> j"
      then consider "i < j" | "j < i" by arith
      then show False
      proof cases
        case 1
        from date_add_strict [OF vs last 1 j'] k show False by simp
      next
        case 2
        from date_add_strict [OF vs last 2 i'] k show False by simp
      qed
    qed
  qed
  have dist: "distinct ?labels"
    by (simp only: distinct_map distinct_upt inj)
  have len: "length ?labels = ?n + 1" by simp
  have sum: "sum_list (map ?cnt ?labels)
             = length (filter (\<lambda>r. where_since dt (isoformat since) r
                                   \<and> day_key r \<in> set ?labels) rows)"
    by (rule sum_counts_distinct [OF dist])
  have all: "\<forall>i \<le> ?n. \<exists>d. date_add ?s i = Inr d \<and> valid_date d"
    using each by blast
  from run all last dist len sum show ?thesis by blast
qed

end
